theory Spec2Isabelle
  imports Complex_Main
begin

section \<open>Common vocabulary\<close>

text \<open>
  The routers are tRPC procedures over a relational store reached through an ORM client.
  A table is modelled as the list of its rows, a row as a record, a nullable or optional
  column as an \<open>option\<close>, a timestamp as the number of milliseconds it denotes, and a thrown
  \<^verbatim>\<open>TRPCError\<close> as the left injection of a sum.  Identifiers are strings, as in the source.
\<close>

type_synonym ident = string
type_synonym date = nat

datatype trpc_code = NOT_FOUND | BAD_REQUEST | CONFLICT | PRECONDITION_FAILED

datatype trpc_error = TRPCError trpc_code string

record ctx =
  ctx_tenantId :: ident
  ctx_userId :: ident

text \<open>
  JavaScript truthiness of an optional string: \<^verbatim>\<open>undefined\<close> and the empty string are
  falsy.  A \<^verbatim>\<open>Date\<close> object is always truthy, so an optional date is truthy when present.
\<close>

fun truthy_str :: "string option \<Rightarrow> bool" where
  "truthy_str None = False"
| "truthy_str (Some s) = (s \<noteq> [])"

text \<open>\<^verbatim>\<open>findFirst\<close>: the first row that satisfies the filter, or null.\<close>

definition findFirst :: "('r \<Rightarrow> bool) \<Rightarrow> 'r list \<Rightarrow> 'r option" where
  "findFirst P rows = find P rows"

section \<open>JavaScript numbers\<close>

text \<open>
  A JavaScript number is \<^verbatim>\<open>NaN\<close>, an infinity, or a finite value.  Division never throws:
  \<^verbatim>\<open>0 / 0\<close> is \<^verbatim>\<open>NaN\<close> and \<^verbatim>\<open>n / 0\<close> for positive \<open>n\<close> is \<^verbatim>\<open>Infinity\<close>.  Finite values are
  modelled as exact rationals; binary rounding of the quotient is not modelled, so where the
  exact value lies on a rounding boundary the last digit the code returns can differ from
  the model's (23 won and 57 lost deals: 28.8 here, 28.7 in binary64).
\<close>

datatype jsnum = JsNaN | JsInfinity | JsNum rat

definition js_div_count :: "nat \<Rightarrow> nat \<Rightarrow> jsnum" where
  "js_div_count a b =
     (if b = 0 then (if a = 0 then JsNaN else JsInfinity)
      else JsNum (of_nat a / of_nat b))"

fun js_times :: "jsnum \<Rightarrow> rat \<Rightarrow> jsnum" where
  "js_times (JsNum x) k = JsNum (x * k)"
| "js_times JsNaN k = JsNaN"
| "js_times JsInfinity k = (if k = 0 then JsNaN else JsInfinity)"

fun js_over :: "jsnum \<Rightarrow> rat \<Rightarrow> jsnum" where
  "js_over (JsNum x) k = JsNum (x / k)"
| "js_over JsNaN k = JsNaN"
| "js_over JsInfinity k = JsInfinity"

text \<open>\<^verbatim>\<open>Math.round\<close> rounds to the nearest integer, halves towards positive infinity.\<close>

fun Math_round :: "jsnum \<Rightarrow> jsnum" where
  "Math_round (JsNum x) = JsNum (of_int \<lfloor>x + 1 / 2\<rfloor>)"
| "Math_round JsNaN = JsNaN"
| "Math_round JsInfinity = JsInfinity"

section \<open>Deals\<close>

datatype deal_status = OPEN | WON | LOST

record deal =
  deal_id :: ident
  deal_tenantId :: ident
  deal_contactId :: ident
  deal_pipelineId :: ident
  deal_stageId :: ident
  deal_title :: string
  deal_value :: rat
  deal_currency :: string
  deal_probability :: "rat option"
  deal_expectedCloseDate :: "date option"
  deal_actualCloseDate :: "date option"
  deal_status :: deal_status
  deal_createdAt :: date

subsection \<open>\<^verbatim>\<open>dealRouter.stats\<close>\<close>

record stats_input =
  si_pipelineId :: "ident option"
  si_startDate :: "date option"
  si_endDate :: "date option"

record deal_stats =
  totalDeals :: nat
  wonDeals :: nat
  lostDeals :: nat
  openDeals :: nat
  totalValue :: rat
  wonValue :: rat
  winRate :: jsnum

text \<open>
  The filter object is built by spreading; the \<^verbatim>\<open>createdAt\<close> key of the end date is spread
  after the one of the start date and replaces it when both are given.
\<close>

definition stats_where :: "ctx \<Rightarrow> stats_input \<Rightarrow> deal \<Rightarrow> bool" where
  "stats_where c i d \<longleftrightarrow>
     deal_tenantId d = ctx_tenantId c
     \<and> (if truthy_str (si_pipelineId i) then Some (deal_pipelineId d) = si_pipelineId i else True)
     \<and> (case si_endDate i of
          Some e \<Rightarrow> deal_createdAt d \<le> e
        | None \<Rightarrow> (case si_startDate i of
                     Some b \<Rightarrow> b \<le> deal_createdAt d
                   | None \<Rightarrow> True))"

definition count_where :: "('r \<Rightarrow> bool) \<Rightarrow> 'r list \<Rightarrow> nat" where
  "count_where P rows = length (filter P rows)"

definition sum_value :: "(deal \<Rightarrow> bool) \<Rightarrow> deal list \<Rightarrow> rat" where
  "sum_value P rows = sum_list (map deal_value (filter P rows))"

definition win_rate :: "nat \<Rightarrow> nat \<Rightarrow> nat \<Rightarrow> jsnum" where
  "win_rate n_total n_won n_lost =
     (if n_total > 0 then js_times (js_div_count n_won (n_won + n_lost)) 100 else JsNum 0)"

definition dealRouter_stats :: "ctx \<Rightarrow> stats_input \<Rightarrow> deal list \<Rightarrow> deal_stats" where
  "dealRouter_stats c i ds =
     (let w = stats_where c i;
          n_total = count_where w ds;
          n_won = count_where (\<lambda>d. w d \<and> deal_status d = WON) ds;
          n_lost = count_where (\<lambda>d. w d \<and> deal_status d = LOST) ds;
          n_open = count_where (\<lambda>d. w d \<and> deal_status d = OPEN) ds
      in \<lparr> totalDeals = n_total, wonDeals = n_won, lostDeals = n_lost, openDeals = n_open,
           totalValue = sum_value w ds,
           wonValue = sum_value (\<lambda>d. w d \<and> deal_status d = WON) ds,
           winRate = js_over (Math_round (js_times (win_rate n_total n_won n_lost) 10)) 10 \<rparr>)"

text \<open>One open deal of tenant \<open>t1\<close>, used as a concrete input below.\<close>

definition ctx1 :: ctx where
  "ctx1 = \<lparr> ctx_tenantId = ''t1'', ctx_userId = ''u1'' \<rparr>"

definition open_deal :: deal where
  "open_deal = \<lparr> deal_id = ''d1'', deal_tenantId = ''t1'', deal_contactId = ''c1'',
     deal_pipelineId = ''p1'', deal_stageId = ''s1'', deal_title = ''Acme'',
     deal_value = 100, deal_currency = ''USD'', deal_probability = None,
     deal_expectedCloseDate = None, deal_actualCloseDate = None, deal_status = OPEN,
     deal_createdAt = 1000 \<rparr>"

definition no_filter :: stats_input where
  "no_filter = \<lparr> si_pipelineId = None, si_startDate = None, si_endDate = None \<rparr>"

section \<open>The relational store\<close>

text \<open>
  The tables the pipeline and deal routers read and write.  Row identifiers are minted by
  the store; the counter \<open>next_id\<close> stands for its generator, and \<open>mint_id\<close> renders a
  counter value as a non-empty string, distinct values as distinct strings.
\<close>

record contact =
  contact_id :: ident
  contact_tenantId :: ident
  contact_createdAt :: date

record pipeline =
  pipeline_id :: ident
  pipeline_tenantId :: ident
  pipeline_name :: string
  pipeline_description :: "string option"
  pipeline_order :: int

record stage =
  stage_id :: ident
  stage_pipelineId :: ident
  stage_name :: string
  stage_color :: string
  stage_order :: int

record activity =
  activity_tenantId :: ident
  activity_contactId :: "ident option"
  activity_dealId :: "ident option"
  activity_userId :: ident
  activity_type :: string
  activity_title :: string

record store =
  contacts :: "contact list"
  pipelines :: "pipeline list"
  stages :: "stage list"
  deals :: "deal list"
  activities :: "activity list"
  next_id :: nat

definition mint_id :: "nat \<Rightarrow> ident" where
  "mint_id n = CHR ''c'' # replicate n (CHR ''0'')"

definition throw :: "trpc_code \<Rightarrow> string \<Rightarrow> store \<Rightarrow> (trpc_error + 'a) \<times> store" where
  "throw code msg s = (Inl (TRPCError code msg), s)"

section \<open>Pipelines and stages\<close>

subsection \<open>\<^verbatim>\<open>pipelineRouter.create\<close>\<close>

record stage_input =
  sti_name :: string
  sti_color :: string

record pipeline_create_input =
  pci_name :: string
  pci_description :: "string option"
  pci_stages :: "stage_input list"

text \<open>
  The order of the new pipeline: one more than the largest order among the tenant's
  pipelines, \<open>0\<close> when the tenant has none (\<^verbatim>\<open>(pipelines[0]?.order ?? -1) + 1\<close> on the
  rows sorted by descending order).
\<close>

definition nextOrder :: "ident \<Rightarrow> pipeline list \<Rightarrow> int" where
  "nextOrder t ps =
     (case map pipeline_order (filter (\<lambda>p. pipeline_tenantId p = t) ps) of
        [] \<Rightarrow> - 1
      | x # xs \<Rightarrow> fold max xs x) + 1"

text \<open>The nested create: one stage row per input stage, its order the array index.\<close>

definition new_stages :: "ident \<Rightarrow> nat \<Rightarrow> stage_input list \<Rightarrow> stage list" where
  "new_stages pid k sis =
     map (\<lambda>(index, si). \<lparr> stage_id = mint_id (k + index), stage_pipelineId = pid,
                            stage_name = sti_name si, stage_color = sti_color si,
                            stage_order = int index \<rparr>)
         (enumerate 0 sis)"

definition pipelineRouter_create ::
    "ctx \<Rightarrow> pipeline_create_input \<Rightarrow> store \<Rightarrow> (trpc_error + pipeline) \<times> store" where
  "pipelineRouter_create c i s =
     (if pci_name i = [] \<or> pci_stages i = [] \<or> (\<exists>si \<in> set (pci_stages i). sti_name si = [])
      then throw BAD_REQUEST ''Invalid input'' s
      else
        let p = \<lparr> pipeline_id = mint_id (next_id s), pipeline_tenantId = ctx_tenantId c,
                  pipeline_name = pci_name i, pipeline_description = pci_description i,
                  pipeline_order = nextOrder (ctx_tenantId c) (pipelines s) \<rparr>
        in (Inr p,
            s\<lparr> pipelines := pipelines s @ [p],
               stages := stages s @ new_stages (pipeline_id p) (Suc (next_id s)) (pci_stages i),
               next_id := Suc (next_id s) + length (pci_stages i) \<rparr>))"

subsection \<open>\<^verbatim>\<open>pipelineRouter.addStage\<close>\<close>

record add_stage_input =
  asi_pipelineId :: ident
  asi_name :: string
  asi_color :: string
  asi_position :: "int option"

text \<open>\<^verbatim>\<open>updateMany\<close>: every row that satisfies the filter is rewritten.\<close>

definition updateMany :: "('r \<Rightarrow> bool) \<Rightarrow> ('r \<Rightarrow> 'r) \<Rightarrow> 'r list \<Rightarrow> 'r list" where
  "updateMany P f rows = map (\<lambda>r. if P r then f r else r) rows"

definition stages_of :: "ident \<Rightarrow> store \<Rightarrow> stage list" where
  "stages_of pid s = filter (\<lambda>st. stage_pipelineId st = pid) (stages s)"

definition pipelineRouter_addStage ::
    "ctx \<Rightarrow> add_stage_input \<Rightarrow> store \<Rightarrow> (trpc_error + stage) \<times> store" where
  "pipelineRouter_addStage c i s =
     (if asi_name i = [] then throw BAD_REQUEST ''Invalid input'' s
      else
        case findFirst (\<lambda>p. pipeline_id p = asi_pipelineId i \<and> pipeline_tenantId p = ctx_tenantId c)
               (pipelines s) of
          None \<Rightarrow> throw NOT_FOUND ''Pipeline not found'' s
        | Some p \<Rightarrow>
            let n = int (length (stages_of (pipeline_id p) s));
                ord = (case asi_position i of Some pos \<Rightarrow> pos | None \<Rightarrow> n);
                shifted =
                  (if ord < n
                   then updateMany (\<lambda>st. stage_pipelineId st = asi_pipelineId i \<and> ord \<le> stage_order st)
                          (\<lambda>st. st\<lparr>stage_order := stage_order st + 1\<rparr>) (stages s)
                   else stages s);
                st = \<lparr> stage_id = mint_id (next_id s), stage_pipelineId = asi_pipelineId i,
                       stage_name = asi_name i, stage_color = asi_color i, stage_order = ord \<rparr>
            in (Inr st, s\<lparr> stages := shifted @ [st], next_id := Suc (next_id s) \<rparr>))"

subsection \<open>\<^verbatim>\<open>pipelineRouter.deleteStage\<close>\<close>

text \<open>
  The stage is looked up through the relation filter \<^verbatim>\<open>pipeline: { tenantId }\<close>: its
  pipeline must be a pipeline of the caller's tenant.  \<open>dealCount\<close> is the included
  \<^verbatim>\<open>_count.deals\<close>.
\<close>

definition stage_in_tenant :: "ident \<Rightarrow> store \<Rightarrow> stage \<Rightarrow> bool" where
  "stage_in_tenant t s st \<longleftrightarrow>
     (\<exists>p \<in> set (pipelines s). pipeline_id p = stage_pipelineId st \<and> pipeline_tenantId p = t)"

definition dealCount :: "ident \<Rightarrow> store \<Rightarrow> nat" where
  "dealCount sid s = count_where (\<lambda>d. deal_stageId d = sid) (deals s)"

definition pipelineRouter_deleteStage ::
    "ctx \<Rightarrow> ident \<Rightarrow> store \<Rightarrow> (trpc_error + bool) \<times> store" where
  "pipelineRouter_deleteStage c i s =
     (case findFirst (\<lambda>st. stage_id st = i \<and> stage_in_tenant (ctx_tenantId c) s st) (stages s) of
        None \<Rightarrow> throw NOT_FOUND ''Stage not found'' s
      | Some st \<Rightarrow>
          if dealCount (stage_id st) s > 0
          then throw BAD_REQUEST
                 ''Cannot delete stage with active deals. Move or delete deals first.'' s
          else
            let remaining = filter (\<lambda>r. stage_id r \<noteq> i) (stages s);
                renumbered =
                  updateMany (\<lambda>r. stage_pipelineId r = stage_pipelineId st \<and> stage_order st < stage_order r)
                    (\<lambda>r. r\<lparr>stage_order := stage_order r - 1\<rparr>) remaining
            in (Inr True, s\<lparr> stages := renumbered \<rparr>))"

text \<open>The order values of the stages of one pipeline, in table order.\<close>

definition stage_orders :: "ident \<Rightarrow> store \<Rightarrow> int list" where
  "stage_orders pid s = map stage_order (stages_of pid s)"

text \<open>
  The ordering invariant of one pipeline: its stage orders are pairwise distinct and are
  exactly \<open>0, \<dots>, N - 1\<close> for its \<open>N\<close> stages.
\<close>

definition dense_orders :: "ident \<Rightarrow> store \<Rightarrow> bool" where
  "dense_orders pid s \<longleftrightarrow>
     distinct (stage_orders pid s)
     \<and> set (stage_orders pid s) = {0 ..< int (length (stage_orders pid s))}"

definition empty_store :: store where
  "empty_store = \<lparr> contacts = [], pipelines = [], stages = [], deals = [], activities = [],
                    next_id = 0 \<rparr>"

section \<open>The deal lifecycle\<close>

text \<open>
  \<^verbatim>\<open>update({ where: { id }, data })\<close> rewrites the row with the given primary key and returns
  it.  The table is a list, so the rewrite is applied to every row with that key and the
  first of them is returned; on a table with unique keys this is the one row.
\<close>

definition update_by_id ::
    "('r \<Rightarrow> ident) \<Rightarrow> ident \<Rightarrow> ('r \<Rightarrow> 'r) \<Rightarrow> 'r list \<Rightarrow> 'r option \<times> 'r list" where
  "update_by_id key i f rows =
     (let rows' = updateMany (\<lambda>r. key r = i) f rows
      in (findFirst (\<lambda>r. key r = i) rows', rows'))"

definition log_activity :: "ctx \<Rightarrow> ident \<Rightarrow> ident \<Rightarrow> string \<Rightarrow> activity" where
  "log_activity c contactId dealId title =
     \<lparr> activity_tenantId = ctx_tenantId c, activity_contactId = Some contactId,
       activity_dealId = Some dealId, activity_userId = ctx_userId c,
       activity_type = ''SYSTEM'', activity_title = title \<rparr>"

subsection \<open>\<^verbatim>\<open>dealRouter.create\<close>\<close>

record deal_create_input =
  dci_contactId :: ident
  dci_pipelineId :: ident
  dci_stageId :: ident
  dci_title :: string
  dci_value :: rat
  dci_currency :: string
  dci_probability :: "rat option"
  dci_expectedCloseDate :: "date option"

definition valid_probability :: "rat option \<Rightarrow> bool" where
  "valid_probability p = (case p of None \<Rightarrow> True | Some x \<Rightarrow> 0 \<le> x \<and> x \<le> 100)"

definition valid_create_input :: "deal_create_input \<Rightarrow> bool" where
  "valid_create_input i \<longleftrightarrow>
     dci_title i \<noteq> [] \<and> 0 \<le> dci_value i \<and> valid_probability (dci_probability i)"

definition dealRouter_create ::
    "ctx \<Rightarrow> deal_create_input \<Rightarrow> date \<Rightarrow> store \<Rightarrow> (trpc_error + deal) \<times> store" where
  "dealRouter_create c i now s =
     (if \<not> valid_create_input i then throw BAD_REQUEST ''Invalid input'' s
      else
        let contact = findFirst (\<lambda>x. contact_id x = dci_contactId i
                                      \<and> contact_tenantId x = ctx_tenantId c) (contacts s);
            pipeline = findFirst (\<lambda>p. pipeline_id p = dci_pipelineId i
                                       \<and> pipeline_tenantId p = ctx_tenantId c) (pipelines s);
            stage = findFirst (\<lambda>st. stage_id st = dci_stageId i
                                     \<and> stage_pipelineId st = dci_pipelineId i) (stages s)
        in if contact = None then throw NOT_FOUND ''Contact not found'' s
           else if pipeline = None then throw NOT_FOUND ''Pipeline not found'' s
           else if stage = None then throw NOT_FOUND ''Stage not found'' s
           else
             let d = \<lparr> deal_id = mint_id (next_id s), deal_tenantId = ctx_tenantId c,
                       deal_contactId = dci_contactId i, deal_pipelineId = dci_pipelineId i,
                       deal_stageId = dci_stageId i, deal_title = dci_title i,
                       deal_value = dci_value i, deal_currency = dci_currency i,
                       deal_probability = dci_probability i,
                       deal_expectedCloseDate = dci_expectedCloseDate i,
                       deal_actualCloseDate = None, deal_status = OPEN,
                       deal_createdAt = now \<rparr>
             in (Inr d,
                 s\<lparr> deals := deals s @ [d],
                    activities := activities s
                       @ [log_activity c (dci_contactId i) (deal_id d) ''Deal created''],
                    next_id := Suc (next_id s) \<rparr>))"

subsection \<open>\<^verbatim>\<open>dealRouter.update\<close>\<close>

text \<open>
  Every field of the input but the id is optional; the expected close date is also
  nullable, so it is absent, null, or a date.
\<close>

record deal_update_input =
  dui_id :: ident
  dui_title :: "string option"
  dui_value :: "rat option"
  dui_probability :: "rat option"
  dui_expectedCloseDate :: "date option option"
  dui_status :: "deal_status option"

definition valid_update_input :: "deal_update_input \<Rightarrow> bool" where
  "valid_update_input i \<longleftrightarrow>
     dui_title i \<noteq> Some [] \<and> (case dui_value i of None \<Rightarrow> True | Some v \<Rightarrow> 0 \<le> v)
     \<and> valid_probability (dui_probability i)"

text \<open>
  The data written: the given fields, and the close date stamped with the current time
  when the given status is \<open>WON\<close> or \<open>LOST\<close>.  An absent field leaves its column as it is.
\<close>

definition apply_update :: "deal_update_input \<Rightarrow> date \<Rightarrow> deal \<Rightarrow> deal" where
  "apply_update i now d =
     d\<lparr> deal_title := (case dui_title i of Some t \<Rightarrow> t | None \<Rightarrow> deal_title d),
        deal_value := (case dui_value i of Some v \<Rightarrow> v | None \<Rightarrow> deal_value d),
        deal_probability :=
          (case dui_probability i of Some p \<Rightarrow> Some p | None \<Rightarrow> deal_probability d),
        deal_expectedCloseDate :=
          (case dui_expectedCloseDate i of Some e \<Rightarrow> e | None \<Rightarrow> deal_expectedCloseDate d),
        deal_status := (case dui_status i of Some st \<Rightarrow> st | None \<Rightarrow> deal_status d),
        deal_actualCloseDate :=
          (if dui_status i = Some WON \<or> dui_status i = Some LOST then Some now
           else deal_actualCloseDate d) \<rparr>"

definition dealRouter_update ::
    "ctx \<Rightarrow> deal_update_input \<Rightarrow> date \<Rightarrow> store \<Rightarrow> (trpc_error + deal) \<times> store" where
  "dealRouter_update c i now s =
     (if \<not> valid_update_input i then throw BAD_REQUEST ''Invalid input'' s
      else
        case findFirst (\<lambda>d. deal_id d = dui_id i \<and> deal_tenantId d = ctx_tenantId c) (deals s) of
          None \<Rightarrow> throw NOT_FOUND ''Deal not found'' s
        | Some existing \<Rightarrow>
            (case update_by_id deal_id (dui_id i) (apply_update i now) (deals s) of
               (None, _) \<Rightarrow> throw NOT_FOUND ''Record to update not found'' s
             | (Some d, ds) \<Rightarrow>
                 (Inr d,
                  s\<lparr> deals := ds,
                     activities := activities s
                        @ [log_activity c (deal_contactId d) (deal_id d) ''Deal updated''] \<rparr>)))"

subsection \<open>\<^verbatim>\<open>dealRouter.moveStage\<close>\<close>

record move_stage_input =
  msi_id :: ident
  msi_stageId :: ident

definition dealRouter_moveStage ::
    "ctx \<Rightarrow> move_stage_input \<Rightarrow> store \<Rightarrow> (trpc_error + deal) \<times> store" where
  "dealRouter_moveStage c i s =
     (case findFirst (\<lambda>d. deal_id d = msi_id i \<and> deal_tenantId d = ctx_tenantId c) (deals s) of
        None \<Rightarrow> throw NOT_FOUND ''Deal not found'' s
      | Some d \<Rightarrow>
          (case findFirst (\<lambda>st. stage_id st = msi_stageId i
                                \<and> stage_pipelineId st = deal_pipelineId d) (stages s) of
             None \<Rightarrow> throw BAD_REQUEST ''Invalid stage for this pipeline'' s
           | Some newStage \<Rightarrow>
               (case update_by_id deal_id (msi_id i)
                       (\<lambda>r. r\<lparr>deal_stageId := msi_stageId i\<rparr>) (deals s) of
                  (None, _) \<Rightarrow> throw NOT_FOUND ''Record to update not found'' s
                | (Some updated, ds) \<Rightarrow>
                    (Inr updated,
                     s\<lparr> deals := ds,
                        activities := activities s
                           @ [log_activity c (deal_contactId d) (deal_id d) ''Deal moved''] \<rparr>))))"

subsection \<open>\<^verbatim>\<open>dealRouter.delete\<close>\<close>

definition dealRouter_delete :: "ctx \<Rightarrow> ident \<Rightarrow> store \<Rightarrow> (trpc_error + bool) \<times> store" where
  "dealRouter_delete c i s =
     (case findFirst (\<lambda>d. deal_id d = i \<and> deal_tenantId d = ctx_tenantId c) (deals s) of
        None \<Rightarrow> throw NOT_FOUND ''Deal not found'' s
      | Some d \<Rightarrow> (Inr True, s\<lparr> deals := filter (\<lambda>r. deal_id r \<noteq> i) (deals s) \<rparr>))"

text \<open>
  The stage a deal refers to (the relation \<^verbatim>\<open>deal.stage\<close>), and the standing requirement
  that it is a stage of the deal's own pipeline.
\<close>

definition stage_of_deal :: "store \<Rightarrow> deal \<Rightarrow> stage option" where
  "stage_of_deal s d = findFirst (\<lambda>st. stage_id st = deal_stageId d) (stages s)"

definition deal_stage_ok :: "store \<Rightarrow> deal \<Rightarrow> bool" where
  "deal_stage_ok s d =
     (case stage_of_deal s d of
        None \<Rightarrow> False
      | Some st \<Rightarrow> stage_pipelineId st = deal_pipelineId d)"

text \<open>The code of the error a procedure threw, if it threw.\<close>

fun error_code :: "(trpc_error + 'a) \<times> store \<Rightarrow> trpc_code option" where
  "error_code (Inl (TRPCError code msg), s) = Some code"
| "error_code (Inr v, s) = None"

text \<open>The row of a deal after a procedure ran, looked up by primary key.\<close>

definition deal_after :: "ident \<Rightarrow> (trpc_error + 'a) \<times> store \<Rightarrow> deal option" where
  "deal_after i r = findFirst (\<lambda>d. deal_id d = i) (deals (snd r))"

section \<open>Concrete stores\<close>

text \<open>
  A store built with the procedures themselves: tenant \<open>t1\<close> has one contact, creates the
  pipeline ``Sales'' with the stages ``New'' and ``Qualified'', and then a deal in ``New''.
  The store mints \<open>c\<close> for the pipeline, \<open>c0\<close> and \<open>c00\<close> for the stages and \<open>c000\<close> for
  the deal.
\<close>

definition base_store :: store where
  "base_store = empty_store\<lparr> contacts :=
     [\<lparr> contact_id = ''k1'', contact_tenantId = ''t1'', contact_createdAt = 500 \<rparr>] \<rparr>"

definition sales_input :: pipeline_create_input where
  "sales_input = \<lparr> pci_name = ''Sales'', pci_description = None,
     pci_stages = [\<lparr> sti_name = ''New'', sti_color = ''#6B7280'' \<rparr>,
                   \<lparr> sti_name = ''Qualified'', sti_color = ''#6B7280'' \<rparr>] \<rparr>"

definition sales_store :: store where
  "sales_store = snd (pipelineRouter_create ctx1 sales_input base_store)"

definition acme_input :: deal_create_input where
  "acme_input = \<lparr> dci_contactId = ''k1'', dci_pipelineId = ''c'', dci_stageId = ''c0'',
     dci_title = ''Acme'', dci_value = 100, dci_currency = ''USD'', dci_probability = None,
     dci_expectedCloseDate = None \<rparr>"

definition deal_store :: store where
  "deal_store = snd (dealRouter_create ctx1 acme_input 1000 sales_store)"

definition set_status :: "deal_status \<Rightarrow> deal_update_input" where
  "set_status st = \<lparr> dui_id = ''c000'', dui_title = None, dui_value = None,
     dui_probability = None, dui_expectedCloseDate = None, dui_status = Some st \<rparr>"

definition won_store :: store where
  "won_store = snd (dealRouter_update ctx1 (set_status WON) 2000 deal_store)"

definition late_stage :: add_stage_input where
  "late_stage = \<lparr> asi_pipelineId = ''c'', asi_name = ''Late'', asi_color = ''#6B7280'',
     asi_position = Some 5 \<rparr>"

text \<open>
  The deal of \<open>deal_store\<close>, a move of it to the stage ``Qualified'', and a second pipeline
  ``Support'' (minted \<open>c0000\<close>, its only stage \<open>c00000\<close>) with a move of the deal to that
  foreign stage.
\<close>

definition acme_deal :: deal where
  "acme_deal = \<lparr> deal_id = ''c000'', deal_tenantId = ''t1'', deal_contactId = ''k1'',
     deal_pipelineId = ''c'', deal_stageId = ''c0'', deal_title = ''Acme'',
     deal_value = 100, deal_currency = ''USD'', deal_probability = None,
     deal_expectedCloseDate = None, deal_actualCloseDate = None, deal_status = OPEN,
     deal_createdAt = 1000 \<rparr>"

definition to_qualified :: move_stage_input where
  "to_qualified = \<lparr> msi_id = ''c000'', msi_stageId = ''c00'' \<rparr>"

definition support_input :: pipeline_create_input where
  "support_input = \<lparr> pci_name = ''Support'', pci_description = None,
     pci_stages = [\<lparr> sti_name = ''Open'', sti_color = ''#6B7280'' \<rparr>] \<rparr>"

definition two_pipelines :: store where
  "two_pipelines = snd (pipelineRouter_create ctx1 support_input deal_store)"

definition to_foreign :: move_stage_input where
  "to_foreign = \<lparr> msi_id = ''c000'', msi_stageId = ''c00000'' \<rparr>"

section \<open>Outbound messages\<close>

text \<open>
  The senders run in a worker against the same store.  Of a message row the model keeps
  the columns the dispatch and the webhooks read or write; the account is the joined row
  (\<^verbatim>\<open>include: { account: true }\<close>).  The content handed to the provider is not modelled.
  What the provider does is given from outside: whether its call for a message resolves or
  throws, and the clock reading when the call has resolved.  Each call made is recorded.
\<close>

datatype message_status =
  QUEUED | SENDING | SENT | DELIVERED | OPENED | CLICKED | BOUNCED | FAILED

datatype email_provider = SENDGRID | MAILGUN | SES | SMTP | POSTMARK

record email_account =
  ea_provider :: email_provider
  ea_apiKey :: "string option"

record email =
  email_id :: ident
  email_tenantId :: ident
  email_contactId :: "ident option"
  email_account :: email_account
  email_trackingId :: "string option"
  email_status :: message_status
  email_sentAt :: "date option"
  email_openedAt :: "date option"
  email_clickedAt :: "date option"
  email_createdAt :: date

datatype provider_call = SendGridSend ident | SmtpSend ident | TwilioCreate ident

datatype js_error = Error string | ProviderError | RecordNotFound

record outside =
  resolves :: "ident \<Rightarrow> bool"
  twilio_sid :: "ident \<Rightarrow> string"
  clock :: "ident \<Rightarrow> date"

record mail_world =
  emails :: "email list"
  email_calls :: "provider_call list"

subsection \<open>\<^verbatim>\<open>EmailSender.send\<close>\<close>

definition set_email :: "ident \<Rightarrow> (email \<Rightarrow> email) \<Rightarrow> mail_world \<Rightarrow> mail_world" where
  "set_email i f w = w\<lparr> emails := updateMany (\<lambda>e. email_id e = i) f (emails w) \<rparr>"

text \<open>
  The \<^verbatim>\<open>catch\<close> block: the status becomes \<open>FAILED\<close> and the error is thrown again.  When no
  row has the identifier, the update in the \<^verbatim>\<open>catch\<close> block throws itself.
\<close>

definition email_failed :: "ident \<Rightarrow> js_error \<Rightarrow> mail_world \<Rightarrow> (js_error + unit) \<times> mail_world" where
  "email_failed i err w =
     (if findFirst (\<lambda>e. email_id e = i) (emails w) = None then (Inl RecordNotFound, w)
      else (Inl err, set_email i (\<lambda>e. e\<lparr>email_status := FAILED\<rparr>) w))"

definition email_sent :: "outside \<Rightarrow> ident \<Rightarrow> mail_world \<Rightarrow> mail_world" where
  "email_sent out i w =
     set_email i (\<lambda>e. e\<lparr>email_status := SENT, email_sentAt := Some (clock out i)\<rparr>) w"

definition sendViaSMTP :: "outside \<Rightarrow> ident \<Rightarrow> mail_world \<Rightarrow> (js_error + unit) \<times> mail_world" where
  "sendViaSMTP out i w =
     (let w' = w\<lparr> email_calls := email_calls w @ [SmtpSend i] \<rparr>
      in if resolves out i then (Inr (), email_sent out i w') else (Inl ProviderError, w'))"

definition EmailSender_send :: "outside \<Rightarrow> ident \<Rightarrow> mail_world \<Rightarrow> (js_error + unit) \<times> mail_world" where
  "EmailSender_send out i w =
     (case findFirst (\<lambda>e. email_id e = i) (emails w) of
        None \<Rightarrow> email_failed i (Error ''Email not found'') w
      | Some e \<Rightarrow>
          if email_status e \<noteq> QUEUED then (Inr (), w)
          else
            let w1 = set_email i (\<lambda>e. e\<lparr>email_status := SENDING\<rparr>) w
            in if ea_provider (email_account e) = SENDGRID then
                 (if \<not> truthy_str (ea_apiKey (email_account e))
                  then email_failed i (Error ''No API key configured'') w1
                  else
                    let w2 = w1\<lparr> email_calls := email_calls w1 @ [SendGridSend i] \<rparr>
                    in if resolves out i then (Inr (), email_sent out i w2)
                       else email_failed i ProviderError w2)
               else if ea_provider (email_account e) = SMTP then
                 (case sendViaSMTP out i w1 of
                    (Inl err, w2) \<Rightarrow> email_failed i err w2
                  | (Inr u, w2) \<Rightarrow> (Inr u, w2))
               else email_failed i (Error ''Unsupported email provider'') w1)"

subsection \<open>\<^verbatim>\<open>EmailSender.processQueue\<close>\<close>

text \<open>
  The batch: the ten oldest \<open>QUEUED\<close> rows.  Each is sent inside its own \<^verbatim>\<open>try\<close>; what a
  send throws is logged and dropped, and the loop goes on with the world that send left.
\<close>

definition queuedEmails :: "mail_world \<Rightarrow> email list" where
  "queuedEmails w = take 10 (sort_key email_createdAt (filter (\<lambda>e. email_status e = QUEUED) (emails w)))"

fun email_loop :: "outside \<Rightarrow> email list \<Rightarrow> mail_world \<Rightarrow> mail_world" where
  "email_loop out [] w = w"
| "email_loop out (e # es) w =
     (case EmailSender_send out (email_id e) w of
        (Inl err, w') \<Rightarrow> email_loop out es w'
      | (Inr u, w') \<Rightarrow> email_loop out es w')"

definition EmailSender_processQueue :: "outside \<Rightarrow> mail_world \<Rightarrow> mail_world" where
  "EmailSender_processQueue out w = email_loop out (queuedEmails w) w"

text \<open>Whether the dispatch of a queued email ends in \<open>SENT\<close>.\<close>

definition email_goes_out :: "outside \<Rightarrow> email \<Rightarrow> bool" where
  "email_goes_out out e \<longleftrightarrow>
     resolves out (email_id e)
     \<and> (ea_provider (email_account e) = SENDGRID \<and> truthy_str (ea_apiKey (email_account e))
        \<or> ea_provider (email_account e) = SMTP)"

definition email_status_of :: "ident \<Rightarrow> mail_world \<Rightarrow> message_status option" where
  "email_status_of i w = map_option email_status (findFirst (\<lambda>e. email_id e = i) (emails w))"

section \<open>SMS\<close>

datatype sms_provider = TWILIO | TELNYX | PLIVO

record sms =
  sms_id :: ident
  sms_tenantId :: ident
  sms_provider :: sms_provider
  sms_providerMessageId :: "string option"
  sms_status :: message_status
  sms_sentAt :: "date option"
  sms_deliveredAt :: "date option"
  sms_createdAt :: date

record sms_world =
  smsMessages :: "sms list"
  sms_calls :: "provider_call list"

subsection \<open>\<^verbatim>\<open>SmsSender.send\<close>\<close>

definition set_sms :: "ident \<Rightarrow> (sms \<Rightarrow> sms) \<Rightarrow> sms_world \<Rightarrow> sms_world" where
  "set_sms i f w = w\<lparr> smsMessages := updateMany (\<lambda>m. sms_id m = i) f (smsMessages w) \<rparr>"

definition sms_failed :: "ident \<Rightarrow> js_error \<Rightarrow> sms_world \<Rightarrow> (js_error + unit) \<times> sms_world" where
  "sms_failed i err w =
     (if findFirst (\<lambda>m. sms_id m = i) (smsMessages w) = None then (Inl RecordNotFound, w)
      else (Inl err, set_sms i (\<lambda>m. m\<lparr>sms_status := FAILED\<rparr>) w))"

definition sendViaTwilio :: "outside \<Rightarrow> ident \<Rightarrow> sms_world \<Rightarrow> (js_error + unit) \<times> sms_world" where
  "sendViaTwilio out i w =
     (let w' = w\<lparr> sms_calls := sms_calls w @ [TwilioCreate i] \<rparr>
      in if resolves out i
         then (Inr (),
               set_sms i (\<lambda>m. m\<lparr>sms_status := SENT, sms_sentAt := Some (clock out i),
                                 sms_providerMessageId := Some (twilio_sid out i)\<rparr>) w')
         else (Inl ProviderError, w'))"

definition SmsSender_send :: "outside \<Rightarrow> ident \<Rightarrow> sms_world \<Rightarrow> (js_error + unit) \<times> sms_world" where
  "SmsSender_send out i w =
     (case findFirst (\<lambda>m. sms_id m = i) (smsMessages w) of
        None \<Rightarrow> sms_failed i (Error ''SMS not found'') w
      | Some m \<Rightarrow>
          if sms_status m \<noteq> QUEUED then (Inr (), w)
          else
            let w1 = set_sms i (\<lambda>m. m\<lparr>sms_status := SENDING\<rparr>) w
            in if sms_provider m = TWILIO then
                 (case sendViaTwilio out i w1 of
                    (Inl err, w2) \<Rightarrow> sms_failed i err w2
                  | (Inr u, w2) \<Rightarrow> (Inr u, w2))
               else sms_failed i (Error ''Unsupported SMS provider'') w1)"

subsection \<open>\<^verbatim>\<open>SmsSender.processQueue\<close>\<close>

definition queuedMessages :: "sms_world \<Rightarrow> sms list" where
  "queuedMessages w = take 10 (sort_key sms_createdAt (filter (\<lambda>m. sms_status m = QUEUED) (smsMessages w)))"

fun sms_loop :: "outside \<Rightarrow> sms list \<Rightarrow> sms_world \<Rightarrow> sms_world" where
  "sms_loop out [] w = w"
| "sms_loop out (m # ms) w =
     (case SmsSender_send out (sms_id m) w of
        (Inl err, w') \<Rightarrow> sms_loop out ms w'
      | (Inr u, w') \<Rightarrow> sms_loop out ms w')"

definition SmsSender_processQueue :: "outside \<Rightarrow> sms_world \<Rightarrow> sms_world" where
  "SmsSender_processQueue out w = sms_loop out (queuedMessages w) w"

definition sms_goes_out :: "outside \<Rightarrow> sms \<Rightarrow> bool" where
  "sms_goes_out out m \<longleftrightarrow> resolves out (sms_id m) \<and> sms_provider m = TWILIO"

definition sms_status_of :: "ident \<Rightarrow> sms_world \<Rightarrow> message_status option" where
  "sms_status_of i w = map_option sms_status (findFirst (\<lambda>m. sms_id m = i) (smsMessages w))"

text \<open>
  A mail queue and an SMS queue for concrete runs.  The provider throws for the messages
  \<open>e1\<close> and \<open>m1\<close>, the oldest queued ones, and resolves for every other message; \<open>e3\<close> and
  \<open>m3\<close> were dispatched before.
\<close>

definition out1 :: outside where
  "out1 = \<lparr> resolves = (\<lambda>i. i \<noteq> ''e1'' \<and> i \<noteq> ''m1''), twilio_sid = (\<lambda>i. ''SM'' @ i),
            clock = (\<lambda>i. 5000) \<rparr>"

definition queued_email :: "ident \<Rightarrow> email_provider \<Rightarrow> date \<Rightarrow> email" where
  "queued_email i p t =
     \<lparr> email_id = i, email_tenantId = ''t1'', email_contactId = None,
       email_account = \<lparr> ea_provider = p, ea_apiKey = Some ''key'' \<rparr>,
       email_trackingId = Some (''trk-'' @ i), email_status = QUEUED, email_sentAt = None,
       email_openedAt = None, email_clickedAt = None, email_createdAt = t \<rparr>"

definition mail1 :: mail_world where
  "mail1 = \<lparr> emails = [queued_email ''e2'' SMTP 20, queued_email ''e1'' SENDGRID 10,
                        (queued_email ''e3'' SENDGRID 5)\<lparr>email_status := SENT,
                                                        email_sentAt := Some 7\<rparr>],
             email_calls = [] \<rparr>"

definition queued_sms :: "ident \<Rightarrow> date \<Rightarrow> sms" where
  "queued_sms i t =
     \<lparr> sms_id = i, sms_tenantId = ''t1'', sms_provider = TWILIO, sms_providerMessageId = None,
       sms_status = QUEUED, sms_sentAt = None, sms_deliveredAt = None, sms_createdAt = t \<rparr>"

definition sms1 :: sms_world where
  "sms1 = \<lparr> smsMessages = [queued_sms ''m2'' 20, queued_sms ''m1'' 10,
                            (queued_sms ''m3'' 5)\<lparr>sms_status := DELIVERED\<rparr>],
            sms_calls = [] \<rparr>"

section \<open>Provider webhooks and tracking\<close>

subsection \<open>\<^verbatim>\<open>handleSendGridWebhook\<close>\<close>

text \<open>
  An event carries its kind and, directly or in its custom arguments, a tracking id.  The
  handler takes a list of events; the loop body is \<open>handle_event\<close>, run at the clock
  reading paired with the event.  The email is found by tracking id and rewritten by
  primary key.  A date is truthy, so \<^verbatim>\<open>!email.openedAt\<close> holds exactly when the column is
  null.
\<close>

record sg_event =
  ev_event :: string
  ev_tracking_id :: "string option"
  ev_customArgs_tracking_id :: "string option"

definition event_trackingId :: "sg_event \<Rightarrow> string option" where
  "event_trackingId ev =
     (if truthy_str (ev_tracking_id ev) then ev_tracking_id ev else ev_customArgs_tracking_id ev)"

definition update_email :: "ident \<Rightarrow> (email \<Rightarrow> email) \<Rightarrow> email list \<Rightarrow> email list" where
  "update_email i f es = updateMany (\<lambda>e. email_id e = i) f es"

definition handle_event :: "date \<Rightarrow> sg_event \<Rightarrow> email list \<Rightarrow> email list" where
  "handle_event now ev es =
     (if \<not> truthy_str (event_trackingId ev) then es
      else
        case findFirst (\<lambda>e. email_trackingId e = event_trackingId ev) es of
          None \<Rightarrow> es
        | Some email \<Rightarrow>
            if ev_event ev = ''delivered'' then
              update_email (email_id email) (\<lambda>e. e\<lparr>email_status := DELIVERED\<rparr>) es
            else if ev_event ev = ''open'' then
              (if email_openedAt email = None
               then update_email (email_id email)
                      (\<lambda>e. e\<lparr>email_status := OPENED, email_openedAt := Some now\<rparr>) es
               else es)
            else if ev_event ev = ''click'' then
              (if email_clickedAt email = None
               then update_email (email_id email)
                      (\<lambda>e. e\<lparr>email_status := CLICKED, email_clickedAt := Some now\<rparr>) es
               else es)
            else if ev_event ev = ''bounce'' \<or> ev_event ev = ''dropped'' then
              update_email (email_id email) (\<lambda>e. e\<lparr>email_status := BOUNCED\<rparr>) es
            else es)"

fun handleSendGridWebhook :: "(date \<times> sg_event) list \<Rightarrow> email list \<Rightarrow> email list" where
  "handleSendGridWebhook [] es = es"
| "handleSendGridWebhook ((now, ev) # events) es =
     handleSendGridWebhook events (handle_event now ev es)"

subsection \<open>\<^verbatim>\<open>emailRouter.trackOpen\<close> and \<^verbatim>\<open>emailRouter.trackClick\<close>\<close>

definition emailRouter_trackOpen :: "ctx \<Rightarrow> string \<Rightarrow> date \<Rightarrow> email list \<Rightarrow> email list" where
  "emailRouter_trackOpen c tid now es =
     (case findFirst (\<lambda>e. email_trackingId e = Some tid \<and> email_tenantId e = ctx_tenantId c) es of
        None \<Rightarrow> es
      | Some email \<Rightarrow>
          if email_openedAt email = None
          then update_email (email_id email)
                 (\<lambda>e. e\<lparr>email_status := OPENED, email_openedAt := Some now\<rparr>) es
          else es)"

definition emailRouter_trackClick :: "ctx \<Rightarrow> string \<Rightarrow> date \<Rightarrow> email list \<Rightarrow> email list" where
  "emailRouter_trackClick c tid now es =
     (case findFirst (\<lambda>e. email_trackingId e = Some tid \<and> email_tenantId e = ctx_tenantId c) es of
        None \<Rightarrow> es
      | Some email \<Rightarrow>
          if email_clickedAt email = None
          then update_email (email_id email)
                 (\<lambda>e. e\<lparr>email_status := CLICKED, email_clickedAt := Some now\<rparr>) es
          else es)"

text \<open>The email an event is about, and events of each kind for the tracking id of \<open>e1\<close>.\<close>

definition tracked :: "string \<Rightarrow> email list \<Rightarrow> email option" where
  "tracked tid es = findFirst (\<lambda>e. email_trackingId e = Some tid) es"

text \<open>
  The email a tracking call of a tenant is about: the lookup \<open>trackOpen\<close> and
  \<open>trackClick\<close> make, by tracking id within the caller's tenant.
\<close>

definition tracked_by :: "ctx \<Rightarrow> string \<Rightarrow> email list \<Rightarrow> email option" where
  "tracked_by c tid es =
     findFirst (\<lambda>e. email_trackingId e = Some tid \<and> email_tenantId e = ctx_tenantId c) es"

definition event_of :: "string \<Rightarrow> string \<Rightarrow> sg_event" where
  "event_of kind tid = \<lparr> ev_event = kind, ev_tracking_id = Some tid,
                          ev_customArgs_tracking_id = None \<rparr>"

section \<open>List queries\<close>

text \<open>
  The deal, contact and email routers each have a \<open>list\<close> procedure with the same body; it
  is modelled once, as \<open>list_query\<close>, over the row type and the filter.
  \<^verbatim>\<open>findMany({ where, take, cursor, orderBy: { createdAt: 'desc' } })\<close>: the rows that
  satisfy the filter, newest first; with a cursor, the rows from the row with that
  identifier on, that row included; of these the first \<open>take\<close>.  \<open>matching\<close> is the result
  before \<open>take\<close> is applied.  An empty cursor string is falsy and counts as no cursor.
  The order among rows of equal \<open>createdAt\<close> is the store's choice; the model takes the
  reverse of the table order.
\<close>

definition from_cursor :: "('r \<Rightarrow> ident) \<Rightarrow> string option \<Rightarrow> 'r list \<Rightarrow> 'r list" where
  "from_cursor key cursor rows =
     (if truthy_str cursor then dropWhile (\<lambda>r. Some (key r) \<noteq> cursor) rows else rows)"

definition matching ::
    "('r \<Rightarrow> ident) \<Rightarrow> ('r \<Rightarrow> date) \<Rightarrow> ('r \<Rightarrow> bool) \<Rightarrow> string option \<Rightarrow> 'r list \<Rightarrow> 'r list" where
  "matching key createdAt wh cursor rows =
     from_cursor key cursor (rev (sort_key createdAt (filter wh rows)))"

definition findMany ::
    "('r \<Rightarrow> ident) \<Rightarrow> ('r \<Rightarrow> date) \<Rightarrow> ('r \<Rightarrow> bool) \<Rightarrow> string option \<Rightarrow> nat \<Rightarrow> 'r list \<Rightarrow> 'r list" where
  "findMany key createdAt wh cursor n rows = take n (matching key createdAt wh cursor rows)"

text \<open>
  The tail of each list procedure: when more rows than the limit came back, the last one is
  popped and its identifier is the next cursor.
\<close>

definition pop_next :: "('r \<Rightarrow> ident) \<Rightarrow> nat \<Rightarrow> 'r list \<Rightarrow> 'r list \<times> ident option" where
  "pop_next key limit found =
     (if length found > limit then (butlast found, Some (key (last found))) else (found, None))"

definition valid_limit :: "nat \<Rightarrow> bool" where
  "valid_limit limit \<longleftrightarrow> 1 \<le> limit \<and> limit \<le> 100"

definition list_query ::
    "('r \<Rightarrow> ident) \<Rightarrow> ('r \<Rightarrow> date) \<Rightarrow> ('r \<Rightarrow> bool) \<Rightarrow> string option \<Rightarrow> nat \<Rightarrow> 'r list
       \<Rightarrow> trpc_error + 'r list \<times> ident option" where
  "list_query key createdAt wh cursor limit rows =
     (if \<not> valid_limit limit then Inl (TRPCError BAD_REQUEST ''Invalid input'')
      else Inr (pop_next key limit (findMany key createdAt wh cursor (limit + 1) rows)))"

subsection \<open>\<^verbatim>\<open>dealRouter.list\<close>\<close>

record deal_list_input =
  dli_pipelineId :: "ident option"
  dli_stageId :: "ident option"
  dli_contactId :: "ident option"
  dli_status :: "deal_status option"
  dli_cursor :: "string option"
  dli_limit :: nat

definition deal_list_where :: "ctx \<Rightarrow> deal_list_input \<Rightarrow> deal \<Rightarrow> bool" where
  "deal_list_where c i d \<longleftrightarrow>
     deal_tenantId d = ctx_tenantId c
     \<and> (if truthy_str (dli_pipelineId i) then Some (deal_pipelineId d) = dli_pipelineId i else True)
     \<and> (if truthy_str (dli_stageId i) then Some (deal_stageId d) = dli_stageId i else True)
     \<and> (if truthy_str (dli_contactId i) then Some (deal_contactId d) = dli_contactId i else True)
     \<and> (case dli_status i of None \<Rightarrow> True | Some st \<Rightarrow> deal_status d = st)"

definition dealRouter_list ::
    "ctx \<Rightarrow> deal_list_input \<Rightarrow> deal list \<Rightarrow> trpc_error + deal list \<times> ident option" where
  "dealRouter_list c i ds =
     list_query deal_id deal_createdAt (deal_list_where c i) (dli_cursor i) (dli_limit i) ds"

subsection \<open>\<^verbatim>\<open>contactRouter.list\<close>\<close>

text \<open>
  The contact filter (tenant, a case-insensitive search over four columns, lead status,
  assignee, tags) is taken as the predicate \<open>wh\<close> it denotes.
\<close>

record contact_list_input =
  cli_cursor :: "string option"
  cli_limit :: nat

definition contactRouter_list ::
    "(contact \<Rightarrow> bool) \<Rightarrow> contact_list_input \<Rightarrow> contact list
       \<Rightarrow> trpc_error + contact list \<times> ident option" where
  "contactRouter_list wh i cs =
     list_query contact_id contact_createdAt wh (cli_cursor i) (cli_limit i) cs"

subsection \<open>\<^verbatim>\<open>emailRouter.list\<close>\<close>

record email_list_input =
  eli_contactId :: "ident option"
  eli_status :: "message_status option"
  eli_cursor :: "string option"
  eli_limit :: nat

definition email_list_where :: "ctx \<Rightarrow> email_list_input \<Rightarrow> email \<Rightarrow> bool" where
  "email_list_where c i e \<longleftrightarrow>
     email_tenantId e = ctx_tenantId c
     \<and> (if truthy_str (eli_contactId i) then email_contactId e = eli_contactId i else True)
     \<and> (case eli_status i of None \<Rightarrow> True | Some st \<Rightarrow> email_status e = st)"

definition emailRouter_list ::
    "ctx \<Rightarrow> email_list_input \<Rightarrow> email list \<Rightarrow> trpc_error + email list \<times> ident option" where
  "emailRouter_list c i es =
     list_query email_id email_createdAt (email_list_where c i) (eli_cursor i) (eli_limit i) es"

text \<open>
  The contract of a page, given the limit and the list \<open>W\<close> of the rows that match
  beyond the cursor: at most \<open>limit\<close> items, namely the first \<open>limit\<close> rows of \<open>W\<close>; a next
  cursor exactly when \<open>W\<close> has more than \<open>limit\<close> rows; and the next cursor, when present,
  the identifier of the row of \<open>W\<close> that follows the page.
\<close>

definition page_spec :: "('r \<Rightarrow> ident) \<Rightarrow> nat \<Rightarrow> 'r list \<Rightarrow> trpc_error + 'r list \<times> ident option \<Rightarrow> bool" where
  "page_spec key limit W res =
     (case res of
        Inl err \<Rightarrow> False
      | Inr (page, nextCursor) \<Rightarrow>
          length page \<le> limit \<and> page = take limit W
          \<and> (nextCursor \<noteq> None) = (limit < length W)
          \<and> (case nextCursor of None \<Rightarrow> True
              | Some c \<Rightarrow> limit < length W \<and> c = key (W ! limit)))"

text \<open>Three deals of tenant \<open>t1\<close>, created at 1000, 2000 and 3000, and a page size of two.\<close>

definition three_deals :: "deal list" where
  "three_deals = [acme_deal, acme_deal\<lparr>deal_id := ''c1'', deal_createdAt := 3000\<rparr>,
                  acme_deal\<lparr>deal_id := ''c2'', deal_createdAt := 2000\<rparr>]"

definition first_two :: deal_list_input where
  "first_two = \<lparr> dli_pipelineId = None, dli_stageId = None, dli_contactId = None,
                 dli_status = None, dli_cursor = None, dli_limit = 2 \<rparr>"

section \<open>Sequences of pipeline operations\<close>

text \<open>
  The three operations that create and delete stages, as data, and a run of a list of
  them.  \<open>position_in_range\<close> says that the position given to \<open>addStage\<close> is absent or lies
  between \<open>0\<close> and the current number of stages of the pipeline; \<open>positions_ok\<close> says so for
  every \<open>addStage\<close> of a run, at the store it is applied to.
\<close>

datatype stage_op =
  Create ctx pipeline_create_input
| AddStage ctx add_stage_input
| DeleteStage ctx ident

fun apply_op :: "stage_op \<Rightarrow> store \<Rightarrow> store" where
  "apply_op (Create c i) s = snd (pipelineRouter_create c i s)"
| "apply_op (AddStage c i) s = snd (pipelineRouter_addStage c i s)"
| "apply_op (DeleteStage c i) s = snd (pipelineRouter_deleteStage c i s)"

fun run_ops :: "stage_op list \<Rightarrow> store \<Rightarrow> store" where
  "run_ops [] s = s"
| "run_ops (x # xs) s = run_ops xs (apply_op x s)"

definition position_in_range :: "add_stage_input \<Rightarrow> store \<Rightarrow> bool" where
  "position_in_range i s =
     (case asi_position i of
        None \<Rightarrow> True
      | Some pos \<Rightarrow> 0 \<le> pos \<and> pos \<le> int (length (stages_of (asi_pipelineId i) s)))"

fun op_in_range :: "stage_op \<Rightarrow> store \<Rightarrow> bool" where
  "op_in_range (AddStage c i) s = position_in_range i s"
| "op_in_range (Create c i) s = True"
| "op_in_range (DeleteStage c i) s = True"

fun positions_ok :: "stage_op list \<Rightarrow> store \<Rightarrow> bool" where
  "positions_ok [] s = True"
| "positions_ok (x # xs) s = (op_in_range x s \<and> positions_ok xs (apply_op x s))"

text \<open>
  The keys of a store the procedures built: stage identifiers are unique, and every stage
  and pipeline identifier in use was minted from a counter value below \<open>next_id\<close>.
\<close>

definition minted :: "store \<Rightarrow> ident \<Rightarrow> bool" where
  "minted s x \<longleftrightarrow> x \<in> mint_id ` {..< next_id s}"

definition well_keyed :: "store \<Rightarrow> bool" where
  "well_keyed s \<longleftrightarrow>
     distinct (map stage_id (stages s))
     \<and> list_all (\<lambda>st. minted s (stage_id st) \<and> minted s (stage_pipelineId st)) (stages s)
     \<and> list_all (\<lambda>p. minted s (pipeline_id p)) (pipelines s)"

definition all_dense :: "store \<Rightarrow> bool" where
  "all_dense s \<longleftrightarrow> (\<forall>pid. dense_orders pid s)"

text \<open>The renumbering an insertion at \<open>ord\<close> and a deletion at \<open>k\<close> apply to an order.\<close>

definition shift_up :: "int \<Rightarrow> int \<Rightarrow> int" where
  "shift_up ord x = (if ord \<le> x then x + 1 else x)"

definition shift_down :: "int \<Rightarrow> int \<Rightarrow> int" where
  "shift_down k x = (if k < x then x - 1 else x)"

section \<open>Properties of the deal statistics\<close>

lemma count_where_conj_le: "count_where (\<lambda>d. P d \<and> Q d) rows \<le> count_where P rows"
  unfolding count_where_def by (induction rows) auto

lemma winRate_finite:
  assumes "0 < wonDeals (dealRouter_stats c i ds) + lostDeals (dealRouter_stats c i ds)"
  shows "winRate (dealRouter_stats c i ds) =
     JsNum (of_int \<lfloor>(of_nat (wonDeals (dealRouter_stats c i ds)) :: rat)
                   / of_nat (wonDeals (dealRouter_stats c i ds) + lostDeals (dealRouter_stats c i ds))
                   * 100 * 10 + 1 / 2\<rfloor> / 10)"
proof -
  let ?w = "stats_where c i"
  let ?won = "count_where (\<lambda>d. ?w d \<and> deal_status d = WON) ds"
  let ?lost = "count_where (\<lambda>d. ?w d \<and> deal_status d = LOST) ds"
  from assms have pos: "0 < ?won + ?lost"
    by (simp add: dealRouter_stats_def Let_def)
  have "?won \<le> count_where ?w ds" "?lost \<le> count_where ?w ds"
    by (rule count_where_conj_le)+
  with pos have "0 < count_where ?w ds" by arith
  with pos show ?thesis
    by (simp add: dealRouter_stats_def Let_def win_rate_def js_div_count_def)
qed

text \<open>
  Claim C1.  The statistics of a tenant whose only deal is open: no deal is won or lost, so
  the claim asks for a win rate of 0.  The guard of the division tests the total number of
  deals, which is 1, so the quotient \<^verbatim>\<open>0 / 0\<close> is taken and the win rate returned is
  \<^verbatim>\<open>NaN\<close>.  No error is raised.
\<close>

theorem stats_open_deal_winRate_NaN:
  "wonDeals (dealRouter_stats ctx1 no_filter [open_deal])
     + lostDeals (dealRouter_stats ctx1 no_filter [open_deal]) = 0
   \<and> winRate (dealRouter_stats ctx1 no_filter [open_deal]) = JsNaN
   \<and> winRate (dealRouter_stats ctx1 no_filter [open_deal]) \<noteq> JsNum 0"
  by (simp add: dealRouter_stats_def win_rate_def count_where_def stats_where_def
      js_div_count_def ctx1_def no_filter_def open_deal_def Let_def)

section \<open>Lookups in a table\<close>

lemma findFirst_SomeD: "findFirst P xs = Some x \<Longrightarrow> P x \<and> x \<in> set xs"
  unfolding findFirst_def by (auto simp: find_Some_iff)

lemma findFirst_None_iff: "findFirst P xs = None \<longleftrightarrow> (\<forall>x \<in> set xs. \<not> P x)"
  unfolding findFirst_def by (auto simp: find_None_iff)

lemma findFirst_key:
  "distinct (map key xs) \<Longrightarrow> x \<in> set xs \<Longrightarrow> findFirst (\<lambda>r. key r = key x) xs = Some x"
  unfolding findFirst_def
  by (induction xs) (auto simp: image_iff)

lemma findFirst_updateMany_key:
  assumes "distinct (map key xs)" "x \<in> set xs" "\<And>r. key (f r) = key r"
  shows "findFirst (\<lambda>r. key r = key x) (updateMany (\<lambda>r. key r = key x) f xs) = Some (f x)"
  using assms(1,2) unfolding findFirst_def updateMany_def
  by (induction xs) (auto simp: assms(3) image_iff)

section \<open>Properties of the stage ordering\<close>

lemma sales_store_dense: "dense_orders ''c'' sales_store"
  by code_simp

text \<open>
  Claim C2.  A pipeline created with two stages has the orders \<open>0, 1\<close>.  Adding a stage at
  position \<open>5\<close>, a number the input schema accepts, takes the append branch (\<open>5\<close> is not
  below the stage count \<open>2\<close>) and stores the position as the order: the orders become
  \<open>0, 1, 5\<close>, which is not the dense sequence \<open>0, 1, 2\<close> the claim asks for.
\<close>

theorem addStage_beyond_end_leaves_gap:
  "stage_orders ''c'' sales_store = [0, 1]
   \<and> error_code (pipelineRouter_addStage ctx1 late_stage sales_store) = None
   \<and> stage_orders ''c'' (snd (pipelineRouter_addStage ctx1 late_stage sales_store)) = [0, 1, 5]
   \<and> \<not> dense_orders ''c'' (snd (pipelineRouter_addStage ctx1 late_stage sales_store))"
  by code_simp

text \<open>
  Claim C3, as stated, fails on the error code: deleting the stage \<open>c0\<close>, which the deal
  \<open>c000\<close> refers to, is refused with \<open>BAD_REQUEST\<close>, not with \<open>PRECONDITION_FAILED\<close>.
\<close>

theorem deleteStage_refusal_is_bad_request:
  "dealCount ''c0'' deal_store = 1
   \<and> error_code (pipelineRouter_deleteStage ctx1 ''c0'' deal_store) = Some BAD_REQUEST
   \<and> error_code (pipelineRouter_deleteStage ctx1 ''c0'' deal_store) \<noteq> Some PRECONDITION_FAILED"
  by code_simp

text \<open>
  Claim C3, amended.  For a stage \<open>st\<close> of the caller's tenant with identifier \<open>i\<close>: when at
  least one deal refers to it, \<open>deleteStage\<close> fails with \<open>BAD_REQUEST\<close> and the store, hence
  the stage and its order, is unchanged; when no deal refers to it, \<open>deleteStage\<close> succeeds,
  no stage with identifier \<open>i\<close> remains, and the remaining stages are the former ones, the
  order decremented by one exactly for those of the same pipeline whose order was greater
  than the order of \<open>st\<close>.
\<close>

theorem deleteStage_guard_and_renumber:
  assumes found:
    "findFirst (\<lambda>st. stage_id st = i \<and> stage_in_tenant (ctx_tenantId c) s st) (stages s) = Some st"
  shows "(0 < dealCount i s \<longrightarrow>
            error_code (pipelineRouter_deleteStage c i s) = Some BAD_REQUEST
            \<and> snd (pipelineRouter_deleteStage c i s) = s)
       \<and> (dealCount i s = 0 \<longrightarrow>
            fst (pipelineRouter_deleteStage c i s) = Inr True
            \<and> i \<notin> stage_id ` set (stages (snd (pipelineRouter_deleteStage c i s)))
            \<and> stages (snd (pipelineRouter_deleteStage c i s)) =
                map (\<lambda>r. if stage_pipelineId r = stage_pipelineId st \<and> stage_order st < stage_order r
                         then r\<lparr>stage_order := stage_order r - 1\<rparr> else r)
                    (filter (\<lambda>r. stage_id r \<noteq> i) (stages s)))"
proof -
  from findFirst_SomeD[OF found] have id: "stage_id st = i" by simp
  show ?thesis
    by (auto simp: pipelineRouter_deleteStage_def found id throw_def Let_def updateMany_def)
qed

theorem deleteStage_guard_and_renumber_witness:
  "error_code (pipelineRouter_deleteStage ctx1 ''c0'' deal_store) = Some BAD_REQUEST
   \<and> snd (pipelineRouter_deleteStage ctx1 ''c0'' deal_store) = deal_store
   \<and> fst (pipelineRouter_deleteStage ctx1 ''c0'' sales_store) = Inr True
   \<and> ''c0'' \<notin> stage_id ` set (stages (snd (pipelineRouter_deleteStage ctx1 ''c0'' sales_store)))
   \<and> stage_orders ''c'' (snd (pipelineRouter_deleteStage ctx1 ''c0'' sales_store)) = [0]"
proof -
  let ?new = "\<lparr> stage_id = ''c0'', stage_pipelineId = ''c'', stage_name = ''New'',
                stage_color = ''#6B7280'', stage_order = 0 \<rparr>"
  have f1: "findFirst (\<lambda>st. stage_id st = ''c0'' \<and> stage_in_tenant (ctx_tenantId ctx1) deal_store st)
              (stages deal_store) = Some ?new"
    by code_simp
  have f2: "findFirst (\<lambda>st. stage_id st = ''c0'' \<and> stage_in_tenant (ctx_tenantId ctx1) sales_store st)
              (stages sales_store) = Some ?new"
    by code_simp
  have c1: "0 < dealCount ''c0'' deal_store" by code_simp
  have c2: "dealCount ''c0'' sales_store = 0" by code_simp
  note a = deleteStage_guard_and_renumber[OF f1, THEN conjunct1, rule_format, OF c1]
  note b = deleteStage_guard_and_renumber[OF f2, THEN conjunct2, rule_format, OF c2]
  note b1 = b[THEN conjunct1] and b2 = b[THEN conjunct2, THEN conjunct1]
    and b3 = b[THEN conjunct2, THEN conjunct2]
  have o: "stage_orders ''c'' (snd (pipelineRouter_deleteStage ctx1 ''c0'' sales_store)) = [0]"
    unfolding stage_orders_def stages_of_def b3 by code_simp
  from a b1 b2 o show ?thesis by blast
qed

section \<open>Properties of the deal lifecycle\<close>

lemma stage_of_deal_unique:
  assumes "distinct (map stage_id (stages s))"
    and "findFirst (\<lambda>st. stage_id st = deal_stageId d \<and> stage_pipelineId st = pid) (stages s) = Some st"
  shows "stage_of_deal s d = Some st"
proof -
  from findFirst_SomeD[OF assms(2)] have "stage_id st = deal_stageId d" "st \<in> set (stages s)"
    by simp_all
  with findFirst_key[OF assms(1), of st] show ?thesis
    by (simp add: stage_of_deal_def)
qed

lemma create_result:
  assumes "dealRouter_create c i now s = (Inr d, s')"
  shows "deals s' = deals s @ [d] \<and> stages s' = stages s
         \<and> deal_status d = OPEN \<and> deal_actualCloseDate d = None
         \<and> deal_stageId d = dci_stageId i \<and> deal_pipelineId d = dci_pipelineId i
         \<and> (\<exists>st. findFirst (\<lambda>st. stage_id st = dci_stageId i
                                   \<and> stage_pipelineId st = dci_pipelineId i) (stages s) = Some st)"
  using assms
  by (auto simp: dealRouter_create_def throw_def Let_def split: if_splits)

lemma update_result:
  assumes valid: "valid_update_input i"
    and dist: "distinct (map deal_id (deals s))"
    and found: "findFirst (\<lambda>d. deal_id d = dui_id i \<and> deal_tenantId d = ctx_tenantId c) (deals s)
                  = Some d0"
  shows "fst (dealRouter_update c i now s) = Inr (apply_update i now d0)
         \<and> deal_after (dui_id i) (dealRouter_update c i now s) = Some (apply_update i now d0)"
proof -
  from findFirst_SomeD[OF found] have id: "deal_id d0 = dui_id i" and mem: "d0 \<in> set (deals s)"
    by simp_all
  have key: "\<And>r. deal_id (apply_update i now r) = deal_id r"
    by (simp add: apply_update_def)
  from findFirst_updateMany_key[OF dist mem, of "apply_update i now"] key id
  have upd: "findFirst (\<lambda>r. deal_id r = dui_id i)
               (updateMany (\<lambda>r. deal_id r = dui_id i) (apply_update i now) (deals s))
             = Some (apply_update i now d0)"
    by simp
  show ?thesis
    by (simp add: dealRouter_update_def valid found update_by_id_def Let_def upd deal_after_def)
qed

lemma moveStage_result:
  assumes dist: "distinct (map deal_id (deals s))"
    and found: "findFirst (\<lambda>d. deal_id d = msi_id i \<and> deal_tenantId d = ctx_tenantId c) (deals s)
                  = Some d0"
    and stage: "findFirst (\<lambda>st. stage_id st = msi_stageId i
                                  \<and> stage_pipelineId st = deal_pipelineId d0) (stages s) = Some st"
  shows "dealRouter_moveStage c i s =
           (Inr (d0\<lparr>deal_stageId := msi_stageId i\<rparr>),
            s\<lparr> deals := updateMany (\<lambda>r. deal_id r = msi_id i)
                           (\<lambda>r. r\<lparr>deal_stageId := msi_stageId i\<rparr>) (deals s),
               activities := activities s
                  @ [log_activity c (deal_contactId d0) (deal_id d0) ''Deal moved''] \<rparr>)"
proof -
  from findFirst_SomeD[OF found] have id: "deal_id d0 = msi_id i" and mem: "d0 \<in> set (deals s)"
    by simp_all
  from findFirst_updateMany_key[OF dist mem, of "\<lambda>r. r\<lparr>deal_stageId := msi_stageId i\<rparr>"] id
  have upd: "findFirst (\<lambda>r. deal_id r = msi_id i)
               (updateMany (\<lambda>r. deal_id r = msi_id i)
                  (\<lambda>r. r\<lparr>deal_stageId := msi_stageId i\<rparr>) (deals s))
             = Some (d0\<lparr>deal_stageId := msi_stageId i\<rparr>)"
    by simp
  show ?thesis
    by (simp add: dealRouter_moveStage_def found stage update_by_id_def Let_def upd)
qed

lemma moveStage_success_cases:
  assumes "dealRouter_moveStage c i s = (Inr d, s')"
  obtains d0 st where
    "findFirst (\<lambda>d. deal_id d = msi_id i \<and> deal_tenantId d = ctx_tenantId c) (deals s) = Some d0"
    "findFirst (\<lambda>st. stage_id st = msi_stageId i
                      \<and> stage_pipelineId st = deal_pipelineId d0) (stages s) = Some st"
  using assms
  by (auto simp: dealRouter_moveStage_def throw_def split: option.splits prod.splits)

lemma moveStage_status_frame:
  "map deal_status (deals (snd (dealRouter_moveStage c i s))) = map deal_status (deals s)"
  by (auto simp: dealRouter_moveStage_def throw_def update_by_id_def updateMany_def Let_def
      split: option.splits)

text \<open>
  Claim C4.  On a store whose stage and deal identifiers are unique (they are primary
  keys): a deal returned by a successful \<open>create\<close> or \<open>moveStage\<close> is in the store and its
  stage is a stage of its own pipeline; if every deal of the store had that property
  before \<open>moveStage\<close> or \<open>create\<close>, every deal has it afterwards; and \<open>moveStage\<close> on a deal
  of the caller with a stage that is not a stage of the deal's pipeline fails with
  \<open>BAD_REQUEST\<close> and leaves the store, hence the deal's stage, unchanged.
\<close>

theorem deal_stage_in_own_pipeline:
  assumes ds: "distinct (map stage_id (stages s))"
    and dd: "distinct (map deal_id (deals s))"
  shows "(\<forall>d s'. dealRouter_create c ci now s = (Inr d, s') \<longrightarrow>
            d \<in> set (deals s') \<and> deal_stage_ok s' d
            \<and> ((\<forall>x \<in> set (deals s). deal_stage_ok s x) \<longrightarrow> (\<forall>x \<in> set (deals s'). deal_stage_ok s' x)))
       \<and> (\<forall>d s'. dealRouter_moveStage c mi s = (Inr d, s') \<longrightarrow>
            d \<in> set (deals s') \<and> deal_stageId d = msi_stageId mi \<and> deal_stage_ok s' d
            \<and> ((\<forall>x \<in> set (deals s). deal_stage_ok s x) \<longrightarrow> (\<forall>x \<in> set (deals s'). deal_stage_ok s' x)))
       \<and> (\<forall>d0. findFirst (\<lambda>d. deal_id d = msi_id mi \<and> deal_tenantId d = ctx_tenantId c) (deals s)
                  = Some d0
                \<and> (\<forall>st \<in> set (stages s). stage_id st = msi_stageId mi
                       \<longrightarrow> stage_pipelineId st \<noteq> deal_pipelineId d0) \<longrightarrow>
            error_code (dealRouter_moveStage c mi s) = Some BAD_REQUEST
            \<and> snd (dealRouter_moveStage c mi s) = s)"
proof (intro conjI allI impI)
  fix d s' assume cr: "dealRouter_create c ci now s = (Inr d, s')"
  from create_result[OF cr] obtain st where
    r: "deals s' = deals s @ [d]" "stages s' = stages s"
       "deal_stageId d = dci_stageId ci" "deal_pipelineId d = dci_pipelineId ci"
    and st: "findFirst (\<lambda>st. stage_id st = dci_stageId ci
                             \<and> stage_pipelineId st = dci_pipelineId ci) (stages s) = Some st"
    by blast
  show "d \<in> set (deals s')" using r by simp
  from ds r have ds': "distinct (map stage_id (stages s'))" by simp
  from st r have "findFirst (\<lambda>st. stage_id st = deal_stageId d
                             \<and> stage_pipelineId st = dci_pipelineId ci) (stages s') = Some st"
    by simp
  from stage_of_deal_unique[OF ds' this] findFirst_SomeD[OF st] r
  show ok: "deal_stage_ok s' d" by (simp add: deal_stage_ok_def)
  assume inv: "\<forall>x \<in> set (deals s). deal_stage_ok s x"
  have "\<And>x. deal_stage_ok s' x = deal_stage_ok s x"
    using r by (simp add: deal_stage_ok_def stage_of_deal_def)
  with inv ok r show "\<forall>x \<in> set (deals s'). deal_stage_ok s' x" by auto
next
  fix d s' assume mv: "dealRouter_moveStage c mi s = (Inr d, s')"
  from moveStage_success_cases[OF mv] obtain d0 st where
    found: "findFirst (\<lambda>d. deal_id d = msi_id mi \<and> deal_tenantId d = ctx_tenantId c) (deals s)
              = Some d0"
    and st: "findFirst (\<lambda>st. stage_id st = msi_stageId mi
                             \<and> stage_pipelineId st = deal_pipelineId d0) (stages s) = Some st"
    by blast
  from moveStage_result[OF dd found st] mv
  have d: "d = d0\<lparr>deal_stageId := msi_stageId mi\<rparr>"
    and s': "deals s' = updateMany (\<lambda>r. deal_id r = msi_id mi)
                          (\<lambda>r. r\<lparr>deal_stageId := msi_stageId mi\<rparr>) (deals s)"
            "stages s' = stages s"
    by auto
  from findFirst_SomeD[OF found] have id: "deal_id d0 = msi_id mi" and mem: "d0 \<in> set (deals s)"
    by simp_all
  from mem id show "d \<in> set (deals s')"
    unfolding s' d updateMany_def by (auto simp: image_iff intro!: bexI[of _ d0])
  show "deal_stageId d = msi_stageId mi" by (simp add: d)
  have "findFirst (\<lambda>st. stage_id st = deal_stageId d
                         \<and> stage_pipelineId st = deal_pipelineId d0) (stages s) = Some st"
    using st by (simp add: d)
  from stage_of_deal_unique[OF ds this] findFirst_SomeD[OF st]
  have okd: "deal_stage_ok s d" by (simp add: deal_stage_ok_def d)
  have frame: "\<And>x. deal_stage_ok s' x = deal_stage_ok s x"
    using s' by (simp add: deal_stage_ok_def stage_of_deal_def)
  from okd frame show "deal_stage_ok s' d" by simp
  assume inv: "\<forall>x \<in> set (deals s). deal_stage_ok s x"
  show "\<forall>x \<in> set (deals s'). deal_stage_ok s' x"
  proof
    fix x assume "x \<in> set (deals s')"
    then obtain y where y: "y \<in> set (deals s)"
      and x: "x = (if deal_id y = msi_id mi then y\<lparr>deal_stageId := msi_stageId mi\<rparr> else y)"
      unfolding s' updateMany_def by auto
    show "deal_stage_ok s' x"
    proof (cases "deal_id y = msi_id mi")
      case True
      with y mem id dd have "y = d0"
        by (metis distinct_map inj_onD)
      with True x d okd frame show ?thesis by simp
    next
      case False
      with x y inv frame show ?thesis by simp
    qed
  qed
next
  fix d0
  assume h: "findFirst (\<lambda>d. deal_id d = msi_id mi \<and> deal_tenantId d = ctx_tenantId c) (deals s)
               = Some d0
             \<and> (\<forall>st \<in> set (stages s). stage_id st = msi_stageId mi
                    \<longrightarrow> stage_pipelineId st \<noteq> deal_pipelineId d0)"
  then have none: "findFirst (\<lambda>st. stage_id st = msi_stageId mi
                                   \<and> stage_pipelineId st = deal_pipelineId d0) (stages s) = None"
    by (auto simp: findFirst_None_iff)
  from h none show "error_code (dealRouter_moveStage c mi s) = Some BAD_REQUEST"
    by (simp add: dealRouter_moveStage_def throw_def)
  from h none show "snd (dealRouter_moveStage c mi s) = s"
    by (simp add: dealRouter_moveStage_def throw_def)
qed
theorem deal_stage_in_own_pipeline_witness:
  "deal_stage_ok (snd (dealRouter_create ctx1 acme_input 4000 deal_store))
     (acme_deal\<lparr>deal_id := ''c0000'', deal_createdAt := 4000\<rparr>)
   \<and> list_all (deal_stage_ok (snd (dealRouter_create ctx1 acme_input 4000 deal_store)))
        (deals (snd (dealRouter_create ctx1 acme_input 4000 deal_store)))
   \<and> deal_stage_ok (snd (dealRouter_moveStage ctx1 to_qualified deal_store))
        (acme_deal\<lparr>deal_stageId := ''c00''\<rparr>)
   \<and> list_all (deal_stage_ok (snd (dealRouter_moveStage ctx1 to_qualified deal_store)))
        (deals (snd (dealRouter_moveStage ctx1 to_qualified deal_store)))
   \<and> error_code (dealRouter_moveStage ctx1 to_foreign two_pipelines) = Some BAD_REQUEST
   \<and> snd (dealRouter_moveStage ctx1 to_foreign two_pipelines) = two_pipelines"
proof -
  have cr: "dealRouter_create ctx1 acme_input 4000 deal_store
              = (Inr (acme_deal\<lparr>deal_id := ''c0000'', deal_createdAt := 4000\<rparr>),
                 snd (dealRouter_create ctx1 acme_input 4000 deal_store))"
  proof (rule prod_eqI)
    show "fst (dealRouter_create ctx1 acme_input 4000 deal_store)
            = fst (Inr (acme_deal\<lparr>deal_id := ''c0000'', deal_createdAt := 4000\<rparr>),
                   snd (dealRouter_create ctx1 acme_input 4000 deal_store))"
      by code_simp
  qed simp
  have mv: "dealRouter_moveStage ctx1 to_qualified deal_store
              = (Inr (acme_deal\<lparr>deal_stageId := ''c00''\<rparr>),
                 snd (dealRouter_moveStage ctx1 to_qualified deal_store))"
  proof (rule prod_eqI)
    show "fst (dealRouter_moveStage ctx1 to_qualified deal_store)
            = fst (Inr (acme_deal\<lparr>deal_stageId := ''c00''\<rparr>),
                   snd (dealRouter_moveStage ctx1 to_qualified deal_store))"
      by code_simp
  qed simp
  have d2: "distinct (map stage_id (stages deal_store))" "distinct (map deal_id (deals deal_store))"
    by code_simp+
  have d3: "distinct (map stage_id (stages two_pipelines))"
    "distinct (map deal_id (deals two_pipelines))"
    by code_simp+
  have inv: "\<forall>x \<in> set (deals deal_store). deal_stage_ok deal_store x"
    by code_simp
  have foreign: "findFirst (\<lambda>d. deal_id d = msi_id to_foreign \<and> deal_tenantId d = ctx_tenantId ctx1)
                   (deals two_pipelines) = Some acme_deal
                 \<and> (\<forall>st \<in> set (stages two_pipelines). stage_id st = msi_stageId to_foreign
                       \<longrightarrow> stage_pipelineId st \<noteq> deal_pipelineId acme_deal)"
    by code_simp
  note t = deal_stage_in_own_pipeline[OF d2, of ctx1 acme_input 4000 to_qualified]
  note t1 = t[THEN conjunct1, rule_format, OF cr]
  note t2 = t[THEN conjunct2, THEN conjunct1, rule_format, OF mv]
  note t3 = deal_stage_in_own_pipeline[OF d3, of ctx1 acme_input 4000 to_foreign,
      THEN conjunct2, THEN conjunct2, rule_format, OF foreign]
  from t1 t2 t3 inv show ?thesis unfolding list_all_iff by blast
qed

lemma update_frame:
  "filter (\<lambda>d. deal_id d \<noteq> dui_id i) (deals (snd (dealRouter_update c i now s)))
     = filter (\<lambda>d. deal_id d \<noteq> dui_id i) (deals s)"
proof -
  have key: "\<And>r. deal_id (apply_update i now r) = deal_id r"
    by (simp add: apply_update_def)
  have "filter (\<lambda>d. deal_id d \<noteq> dui_id i)
          (updateMany (\<lambda>r. deal_id r = dui_id i) (apply_update i now) ds)
        = filter (\<lambda>d. deal_id d \<noteq> dui_id i) ds" for ds
    unfolding updateMany_def by (induction ds) (auto simp: key)
  then show ?thesis
    by (auto simp: dealRouter_update_def throw_def update_by_id_def Let_def
        split: option.splits)
qed

lemma moveStage_close_date_frame:
  "map deal_actualCloseDate (deals (snd (dealRouter_moveStage c i s)))
     = map deal_actualCloseDate (deals s)"
  by (auto simp: dealRouter_moveStage_def throw_def update_by_id_def updateMany_def Let_def
      split: option.splits)

text \<open>
  Claim C5, as stated, fails: the deal \<open>c000\<close> is \<open>WON\<close> in \<open>won_store\<close>, and an update
  whose input gives the status \<open>OPEN\<close> returns it to \<open>OPEN\<close>; one that gives \<open>LOST\<close> moves it
  to the other terminal status.
\<close>

theorem update_reopens_won_deal:
  "map_option deal_status (findFirst (\<lambda>d. deal_id d = ''c000'') (deals won_store)) = Some WON
   \<and> map_option deal_status
        (deal_after ''c000'' (dealRouter_update ctx1 (set_status OPEN) 3000 won_store)) = Some OPEN
   \<and> map_option deal_status
        (deal_after ''c000'' (dealRouter_update ctx1 (set_status LOST) 3000 won_store)) = Some LOST"
  by code_simp

text \<open>
  Claim C5, amended.  On a store with unique deal identifiers, an update with a valid
  input of a deal \<open>d0\<close> of the caller succeeds and leaves the deal with the status the input
  gives, whatever the status of \<open>d0\<close> was, and with the status of \<open>d0\<close> when the input gives
  none; the rows of the other deals are unchanged.  \<open>moveStage\<close> changes the status of no
  deal, and a deal is created \<open>OPEN\<close>, the other deals unchanged.
\<close>

theorem status_follows_update_input:
  assumes valid: "valid_update_input i"
    and dist: "distinct (map deal_id (deals s))"
    and found: "findFirst (\<lambda>d. deal_id d = dui_id i \<and> deal_tenantId d = ctx_tenantId c) (deals s)
                  = Some d0"
  shows "error_code (dealRouter_update c i now s) = None
       \<and> map_option deal_status (deal_after (dui_id i) (dealRouter_update c i now s))
           = Some (case dui_status i of Some st \<Rightarrow> st | None \<Rightarrow> deal_status d0)
       \<and> filter (\<lambda>d. deal_id d \<noteq> dui_id i) (deals (snd (dealRouter_update c i now s)))
           = filter (\<lambda>d. deal_id d \<noteq> dui_id i) (deals s)
       \<and> map deal_status (deals (snd (dealRouter_moveStage c mi s))) = map deal_status (deals s)
       \<and> (\<forall>d s'. dealRouter_create c ci t s = (Inr d, s') \<longrightarrow>
             deal_status d = OPEN \<and> deals s' = deals s @ [d])"
proof -
  note r = update_result[OF valid dist found, of now]
  from r have "error_code (dealRouter_update c i now s) = None"
    by (cases "dealRouter_update c i now s") simp
  moreover from r
  have "map_option deal_status (deal_after (dui_id i) (dealRouter_update c i now s))
          = Some (case dui_status i of Some st \<Rightarrow> st | None \<Rightarrow> deal_status d0)"
    by (simp add: apply_update_def)
  moreover have "\<forall>d s'. dealRouter_create c ci t s = (Inr d, s') \<longrightarrow>
                   deal_status d = OPEN \<and> deals s' = deals s @ [d]"
    using create_result by blast
  ultimately show ?thesis
    using update_frame moveStage_status_frame by blast
qed

theorem status_follows_update_input_witness:
  "error_code (dealRouter_update ctx1 (set_status OPEN) 3000 won_store) = None
   \<and> map_option deal_status
        (deal_after ''c000'' (dealRouter_update ctx1 (set_status OPEN) 3000 won_store)) = Some OPEN
   \<and> deal_status (acme_deal\<lparr>deal_id := ''c0000'', deal_createdAt := 4000\<rparr>) = OPEN"
proof -
  let ?won = "acme_deal\<lparr>deal_status := WON, deal_actualCloseDate := Some 2000\<rparr>"
  have v: "valid_update_input (set_status OPEN)" by code_simp
  have d: "distinct (map deal_id (deals won_store))" by code_simp
  have f: "findFirst (\<lambda>d. deal_id d = dui_id (set_status OPEN) \<and> deal_tenantId d = ctx_tenantId ctx1)
             (deals won_store) = Some ?won"
    by code_simp
  have cr: "dealRouter_create ctx1 acme_input 4000 won_store
              = (Inr (acme_deal\<lparr>deal_id := ''c0000'', deal_createdAt := 4000\<rparr>),
                 snd (dealRouter_create ctx1 acme_input 4000 won_store))"
  proof (rule prod_eqI)
    show "fst (dealRouter_create ctx1 acme_input 4000 won_store)
            = fst (Inr (acme_deal\<lparr>deal_id := ''c0000'', deal_createdAt := 4000\<rparr>),
                   snd (dealRouter_create ctx1 acme_input 4000 won_store))"
      by code_simp
  qed simp
  note t = status_follows_update_input[OF v d f, of 3000 to_qualified acme_input 4000]
  note t1 = t[THEN conjunct1] and t2 = t[THEN conjunct2, THEN conjunct1]
    and t5 = t[THEN conjunct2, THEN conjunct2, THEN conjunct2, THEN conjunct2, rule_format,
               OF cr, THEN conjunct1]
  have i: "dui_id (set_status OPEN) = ''c000''" "dui_status (set_status OPEN) = Some OPEN"
    by (simp_all add: set_status_def)
  from t1 t2 t5 show ?thesis unfolding i by simp
qed

text \<open>
  Claim C6, as stated, fails in its second half: the deal \<open>c000\<close> was closed as \<open>WON\<close> at
  time \<open>2000\<close>; after an update that gives the status \<open>OPEN\<close> its status is \<open>OPEN\<close> and its
  close date is still \<open>2000\<close>, not null.
\<close>

theorem reopened_deal_keeps_close_date:
  "map_option deal_status
     (deal_after ''c000'' (dealRouter_update ctx1 (set_status OPEN) 3000 won_store)) = Some OPEN
   \<and> map_option deal_actualCloseDate
       (deal_after ''c000'' (dealRouter_update ctx1 (set_status OPEN) 3000 won_store))
       = Some (Some 2000)"
  by code_simp

text \<open>
  Claim C6, amended.  On a store with unique deal identifiers, an update with a valid
  input of a deal \<open>d0\<close> of the caller leaves the deal with the close date \<open>now\<close> when the
  input gives the status \<open>WON\<close> or \<open>LOST\<close>, whatever the close date of \<open>d0\<close> was, and with the
  close date of \<open>d0\<close> otherwise.  \<open>moveStage\<close> changes no close date, and a deal is created
  \<open>OPEN\<close> with no close date.
\<close>

theorem close_date_follows_update_input:
  assumes valid: "valid_update_input i"
    and dist: "distinct (map deal_id (deals s))"
    and found: "findFirst (\<lambda>d. deal_id d = dui_id i \<and> deal_tenantId d = ctx_tenantId c) (deals s)
                  = Some d0"
  shows "map_option deal_actualCloseDate (deal_after (dui_id i) (dealRouter_update c i now s))
           = Some (if dui_status i = Some WON \<or> dui_status i = Some LOST then Some now
                   else deal_actualCloseDate d0)
       \<and> map deal_actualCloseDate (deals (snd (dealRouter_moveStage c mi s)))
           = map deal_actualCloseDate (deals s)
       \<and> (\<forall>d s'. dealRouter_create c ci t s = (Inr d, s') \<longrightarrow>
             deal_status d = OPEN \<and> deal_actualCloseDate d = None)"
proof -
  note r = update_result[OF valid dist found, of now]
  from r
  have "map_option deal_actualCloseDate (deal_after (dui_id i) (dealRouter_update c i now s))
          = Some (if dui_status i = Some WON \<or> dui_status i = Some LOST then Some now
                  else deal_actualCloseDate d0)"
    by (simp add: apply_update_def)
  moreover have "\<forall>d s'. dealRouter_create c ci t s = (Inr d, s') \<longrightarrow>
                   deal_status d = OPEN \<and> deal_actualCloseDate d = None"
    using create_result by blast
  ultimately show ?thesis
    using moveStage_close_date_frame by blast
qed

theorem close_date_follows_update_input_witness:
  "map_option deal_actualCloseDate
     (deal_after ''c000'' (dealRouter_update ctx1 (set_status LOST) 3000 won_store))
     = Some (Some 3000)
   \<and> deal_actualCloseDate (acme_deal\<lparr>deal_id := ''c0000'', deal_createdAt := 4000\<rparr>) = None"
proof -
  let ?won = "acme_deal\<lparr>deal_status := WON, deal_actualCloseDate := Some 2000\<rparr>"
  have v: "valid_update_input (set_status LOST)" by code_simp
  have d: "distinct (map deal_id (deals won_store))" by code_simp
  have f: "findFirst (\<lambda>d. deal_id d = dui_id (set_status LOST) \<and> deal_tenantId d = ctx_tenantId ctx1)
             (deals won_store) = Some ?won"
    by code_simp
  have cr: "dealRouter_create ctx1 acme_input 4000 won_store
              = (Inr (acme_deal\<lparr>deal_id := ''c0000'', deal_createdAt := 4000\<rparr>),
                 snd (dealRouter_create ctx1 acme_input 4000 won_store))"
  proof (rule prod_eqI)
    show "fst (dealRouter_create ctx1 acme_input 4000 won_store)
            = fst (Inr (acme_deal\<lparr>deal_id := ''c0000'', deal_createdAt := 4000\<rparr>),
                   snd (dealRouter_create ctx1 acme_input 4000 won_store))"
      by code_simp
  qed simp
  note t = close_date_follows_update_input[OF v d f, of 3000 to_qualified acme_input 4000]
  note t1 = t[THEN conjunct1]
    and t3 = t[THEN conjunct2, THEN conjunct2, rule_format, OF cr, THEN conjunct2]
  have i: "dui_id (set_status LOST) = ''c000''" "dui_status (set_status LOST) = Some LOST"
    by (simp_all add: set_status_def)
  from t1 t3 show ?thesis unfolding i by simp
qed

section \<open>Properties of the dispatch\<close>

lemma findFirst_updateMany_same:
  assumes "\<And>r. key (f r) = key r"
  shows "findFirst (\<lambda>r. key r = i) (updateMany (\<lambda>r. key r = i) f xs)
           = map_option f (findFirst (\<lambda>r. key r = i) xs)"
  unfolding findFirst_def updateMany_def by (induction xs) (auto simp: assms)

lemma findFirst_updateMany_other:
  assumes "\<And>r. key (f r) = key r" "i \<noteq> j"
  shows "findFirst (\<lambda>r. key r = i) (updateMany (\<lambda>r. key r = j) f xs)
           = findFirst (\<lambda>r. key r = i) xs"
  unfolding findFirst_def updateMany_def using assms(2) by (induction xs) (auto simp: assms(1))

lemma distinct_batch:
  assumes "distinct (map key xs)"
  shows "distinct (map key (take n (sort_key k (filter P xs))))"
proof -
  from assms have d: "distinct xs" and inj: "inj_on key (set xs)"
    by (simp_all add: distinct_map)
  have "set (take n (sort_key k (filter P xs))) \<subseteq> set xs"
    using set_take_subset[of n "sort_key k (filter P xs)"] by auto
  with inj have "inj_on key (set (take n (sort_key k (filter P xs))))"
    by (rule inj_on_subset)
  moreover from d have "distinct (take n (sort_key k (filter P xs)))"
    by simp
  ultimately show ?thesis by (simp add: distinct_map)
qed

lemma batch_member:
  assumes "x \<in> set (take n (sort_key k (filter P xs)))"
  shows "x \<in> set xs \<and> P x"
  using assms set_take_subset[of n "sort_key k (filter P xs)"] by auto

subsection \<open>Email\<close>

lemma erow_set_same:
  assumes "\<And>r. email_id (f r) = email_id r"
  shows "findFirst (\<lambda>e. email_id e = i) (emails (set_email i f w))
           = map_option f (findFirst (\<lambda>e. email_id e = i) (emails w))"
  unfolding set_email_def using findFirst_updateMany_same[of email_id f i "emails w"] assms
  by simp

lemma erow_set_other:
  assumes "\<And>r. email_id (f r) = email_id r" "i \<noteq> j"
  shows "findFirst (\<lambda>e. email_id e = i) (emails (set_email j f w))
           = findFirst (\<lambda>e. email_id e = i) (emails w)"
  unfolding set_email_def using findFirst_updateMany_other[of email_id f i j "emails w"] assms
  by simp

lemma email_send_own_status:
  assumes "findFirst (\<lambda>e. email_id e = i) (emails w) = Some e"
  shows "email_status_of i (snd (EmailSender_send out i w))
           = Some (if email_status e \<noteq> QUEUED then email_status e
                   else if email_goes_out out e then SENT else FAILED)"
proof -
  from findFirst_SomeD[OF assms] have id: "email_id e = i" by simp
  show ?thesis
    by (cases "ea_provider (email_account e)")
      (simp_all add: EmailSender_send_def assms email_status_of_def email_goes_out_def id
        email_failed_def email_sent_def sendViaSMTP_def Let_def erow_set_same)
qed

lemma email_send_other:
  assumes "i \<noteq> j"
  shows "findFirst (\<lambda>e. email_id e = i) (emails (snd (EmailSender_send out j w)))
           = findFirst (\<lambda>e. email_id e = i) (emails w)"
  using assms
  by (simp add: EmailSender_send_def email_failed_def email_sent_def sendViaSMTP_def
      Let_def erow_set_other split: option.splits)

lemma email_loop_other:
  assumes "i \<notin> email_id ` set es"
  shows "findFirst (\<lambda>e. email_id e = i) (emails (email_loop out es w))
           = findFirst (\<lambda>e. email_id e = i) (emails w)"
  using assms
proof (induction es arbitrary: w)
  case Nil
  then show ?case by simp
next
  case (Cons x xs)
  then have ne: "i \<noteq> email_id x" and rest: "i \<notin> email_id ` set xs" by auto
  obtain r w' where s: "EmailSender_send out (email_id x) w = (r, w')"
    by (cases "EmailSender_send out (email_id x) w")
  from email_send_other[OF ne, of out w] s
  have "findFirst (\<lambda>e. email_id e = i) (emails w') = findFirst (\<lambda>e. email_id e = i) (emails w)"
    by simp
  with Cons.IH[OF rest, of w'] s show ?case
    by (cases r) simp_all
qed

lemma email_loop_item:
  assumes "distinct (map email_id es)" "x \<in> set es"
    and "findFirst (\<lambda>e. email_id e = email_id x) (emails w) = Some e"
  shows "email_status_of (email_id x) (email_loop out es w)
           = Some (if email_status e \<noteq> QUEUED then email_status e
                   else if email_goes_out out e then SENT else FAILED)"
  using assms
proof (induction es arbitrary: w)
  case Nil
  then show ?case by simp
next
  case (Cons y ys)
  obtain r w' where s: "EmailSender_send out (email_id y) w = (r, w')"
    by (cases "EmailSender_send out (email_id y) w")
  then have loop: "email_loop out (y # ys) w = email_loop out ys w'"
    by (cases r) simp_all
  show ?case
  proof (cases "email_id y = email_id x")
    case True
    with Cons.prems(1) have "email_id x \<notin> email_id ` set ys" by auto
    from email_loop_other[OF this, of out w']
    have "email_status_of (email_id x) (email_loop out ys w') = email_status_of (email_id x) w'"
      by (simp add: email_status_of_def)
    with email_send_own_status[OF Cons.prems(3), of out] s True loop show ?thesis
      by simp
  next
    case False
    with Cons.prems(1,2) have "distinct (map email_id ys)" "x \<in> set ys" by auto
    moreover from email_send_other[of "email_id x" "email_id y" out w] False s Cons.prems(3)
    have "findFirst (\<lambda>e. email_id e = email_id x) (emails w') = Some e" by simp
    ultimately show ?thesis using Cons.IH[of w'] loop by simp
  qed
qed

lemma email_queue_item:
  assumes "distinct (map email_id (emails w))" "x \<in> set (queuedEmails w)"
  shows "email_status_of (email_id x) (EmailSender_processQueue out w)
           = Some (if email_goes_out out x then SENT else FAILED)"
proof -
  from batch_member[OF assms(2)[unfolded queuedEmails_def]]
  have mem: "x \<in> set (emails w)" and q: "email_status x = QUEUED" by simp_all
  from findFirst_key[OF assms(1) mem]
  have row: "findFirst (\<lambda>e. email_id e = email_id x) (emails w) = Some x" .
  have "distinct (map email_id (queuedEmails w))"
    unfolding queuedEmails_def by (rule distinct_batch[OF assms(1)])
  from email_loop_item[OF this assms(2) row, of out] q show ?thesis
    by (simp add: EmailSender_processQueue_def)
qed

lemma email_send_throws:
  assumes "findFirst (\<lambda>e. email_id e = i) (emails w) = Some e" "email_status e = QUEUED"
    and "ea_provider (email_account e) = SENDGRID \<and> truthy_str (ea_apiKey (email_account e))
         \<or> ea_provider (email_account e) = SMTP"
    and "\<not> resolves out i"
  shows "fst (EmailSender_send out i w) = Inl ProviderError"
  using assms(3)
  by (auto simp: EmailSender_send_def assms(1,2,4) email_failed_def sendViaSMTP_def
      Let_def erow_set_same)

lemma email_noop:
  assumes "findFirst (\<lambda>e. email_id e = i) (emails w) = Some e" "email_status e \<noteq> QUEUED"
  shows "EmailSender_send out i w = (Inr (), w)"
  using assms by (simp add: EmailSender_send_def)
subsection \<open>SMS\<close>

lemma srow_set_same:
  assumes "\<And>r. sms_id (f r) = sms_id r"
  shows "findFirst (\<lambda>m. sms_id m = i) (smsMessages (set_sms i f w))
           = map_option f (findFirst (\<lambda>m. sms_id m = i) (smsMessages w))"
  unfolding set_sms_def using findFirst_updateMany_same[of sms_id f i "smsMessages w"] assms
  by simp

lemma srow_set_other:
  assumes "\<And>r. sms_id (f r) = sms_id r" "i \<noteq> j"
  shows "findFirst (\<lambda>m. sms_id m = i) (smsMessages (set_sms j f w))
           = findFirst (\<lambda>m. sms_id m = i) (smsMessages w)"
  unfolding set_sms_def using findFirst_updateMany_other[of sms_id f i j "smsMessages w"] assms
  by simp

lemma sms_send_own_status:
  assumes "findFirst (\<lambda>m. sms_id m = i) (smsMessages w) = Some m"
  shows "sms_status_of i (snd (SmsSender_send out i w))
           = Some (if sms_status m \<noteq> QUEUED then sms_status m
                   else if sms_goes_out out m then SENT else FAILED)"
proof -
  from findFirst_SomeD[OF assms] have id: "sms_id m = i" by simp
  show ?thesis
    by (simp add: SmsSender_send_def assms sms_status_of_def sms_goes_out_def id
        sms_failed_def sendViaTwilio_def Let_def srow_set_same)
qed

lemma sms_send_other:
  assumes "i \<noteq> j"
  shows "findFirst (\<lambda>m. sms_id m = i) (smsMessages (snd (SmsSender_send out j w)))
           = findFirst (\<lambda>m. sms_id m = i) (smsMessages w)"
  using assms
  by (simp add: SmsSender_send_def sms_failed_def sendViaTwilio_def
      Let_def srow_set_other split: option.splits)

lemma sms_loop_other:
  assumes "i \<notin> sms_id ` set ms"
  shows "findFirst (\<lambda>m. sms_id m = i) (smsMessages (sms_loop out ms w))
           = findFirst (\<lambda>m. sms_id m = i) (smsMessages w)"
  using assms
proof (induction ms arbitrary: w)
  case Nil
  then show ?case by simp
next
  case (Cons x xs)
  then have ne: "i \<noteq> sms_id x" and rest: "i \<notin> sms_id ` set xs" by auto
  obtain r w' where s: "SmsSender_send out (sms_id x) w = (r, w')"
    by (cases "SmsSender_send out (sms_id x) w")
  from sms_send_other[OF ne, of out w] s
  have "findFirst (\<lambda>m. sms_id m = i) (smsMessages w') = findFirst (\<lambda>m. sms_id m = i) (smsMessages w)"
    by simp
  with Cons.IH[OF rest, of w'] s show ?case
    by (cases r) simp_all
qed

lemma sms_loop_item:
  assumes "distinct (map sms_id ms)" "x \<in> set ms"
    and "findFirst (\<lambda>m. sms_id m = sms_id x) (smsMessages w) = Some m"
  shows "sms_status_of (sms_id x) (sms_loop out ms w)
           = Some (if sms_status m \<noteq> QUEUED then sms_status m
                   else if sms_goes_out out m then SENT else FAILED)"
  using assms
proof (induction ms arbitrary: w)
  case Nil
  then show ?case by simp
next
  case (Cons y ys)
  obtain r w' where s: "SmsSender_send out (sms_id y) w = (r, w')"
    by (cases "SmsSender_send out (sms_id y) w")
  then have loop: "sms_loop out (y # ys) w = sms_loop out ys w'"
    by (cases r) simp_all
  show ?case
  proof (cases "sms_id y = sms_id x")
    case True
    with Cons.prems(1) have "sms_id x \<notin> sms_id ` set ys" by auto
    from sms_loop_other[OF this, of out w']
    have "sms_status_of (sms_id x) (sms_loop out ys w') = sms_status_of (sms_id x) w'"
      by (simp add: sms_status_of_def)
    with sms_send_own_status[OF Cons.prems(3), of out] s True loop show ?thesis
      by simp
  next
    case False
    with Cons.prems(1,2) have "distinct (map sms_id ys)" "x \<in> set ys" by auto
    moreover from sms_send_other[of "sms_id x" "sms_id y" out w] False s Cons.prems(3)
    have "findFirst (\<lambda>m. sms_id m = sms_id x) (smsMessages w') = Some m" by simp
    ultimately show ?thesis using Cons.IH[of w'] loop by simp
  qed
qed

lemma sms_queue_item:
  assumes "distinct (map sms_id (smsMessages w))" "x \<in> set (queuedMessages w)"
  shows "sms_status_of (sms_id x) (SmsSender_processQueue out w)
           = Some (if sms_goes_out out x then SENT else FAILED)"
proof -
  from batch_member[OF assms(2)[unfolded queuedMessages_def]]
  have mem: "x \<in> set (smsMessages w)" and q: "sms_status x = QUEUED" by simp_all
  from findFirst_key[OF assms(1) mem]
  have row: "findFirst (\<lambda>m. sms_id m = sms_id x) (smsMessages w) = Some x" .
  have "distinct (map sms_id (queuedMessages w))"
    unfolding queuedMessages_def by (rule distinct_batch[OF assms(1)])
  from sms_loop_item[OF this assms(2) row, of out] q show ?thesis
    by (simp add: SmsSender_processQueue_def)
qed

lemma sms_send_throws:
  assumes "findFirst (\<lambda>m. sms_id m = i) (smsMessages w) = Some m" "sms_status m = QUEUED"
    and "sms_provider m = TWILIO" "\<not> resolves out i"
  shows "fst (SmsSender_send out i w) = Inl ProviderError"
  by (simp add: SmsSender_send_def assms sms_failed_def sendViaTwilio_def Let_def srow_set_same)

lemma sms_noop:
  assumes "findFirst (\<lambda>m. sms_id m = i) (smsMessages w) = Some m" "sms_status m \<noteq> QUEUED"
  shows "SmsSender_send out i w = (Inr (), w)"
  using assms by (simp add: SmsSender_send_def)

text \<open>
  Claim C7.  When the row a dispatch reads has a status other than \<open>QUEUED\<close>, the dispatch
  returns normally and the world it leaves is the world it found: every row is as it was
  and the record of provider calls has not grown.  This holds for email and for SMS.
\<close>

theorem dispatch_of_processed_message_is_noop:
  "(\<forall>e. findFirst (\<lambda>e. email_id e = i) (emails w) = Some e \<and> email_status e \<noteq> QUEUED
         \<longrightarrow> EmailSender_send out i w = (Inr (), w))
   \<and> (\<forall>m. findFirst (\<lambda>m. sms_id m = j) (smsMessages v) = Some m \<and> sms_status m \<noteq> QUEUED
         \<longrightarrow> SmsSender_send out j v = (Inr (), v))"
  using email_noop sms_noop by blast

theorem dispatch_of_processed_message_is_noop_witness:
  "EmailSender_send out1 ''e3'' mail1 = (Inr (), mail1)
   \<and> SmsSender_send out1 ''m3'' sms1 = (Inr (), sms1)"
proof -
  have e: "findFirst (\<lambda>e. email_id e = ''e3'') (emails mail1)
             = Some ((queued_email ''e3'' SENDGRID 5)\<lparr>email_status := SENT, email_sentAt := Some 7\<rparr>)
           \<and> email_status ((queued_email ''e3'' SENDGRID 5)\<lparr>email_status := SENT,
                               email_sentAt := Some 7\<rparr>) \<noteq> QUEUED"
    by code_simp
  have m: "findFirst (\<lambda>m. sms_id m = ''m3'') (smsMessages sms1)
             = Some ((queued_sms ''m3'' 5)\<lparr>sms_status := DELIVERED\<rparr>)
           \<and> sms_status ((queued_sms ''m3'' 5)\<lparr>sms_status := DELIVERED\<rparr>) \<noteq> QUEUED"
    by code_simp
  note t = dispatch_of_processed_message_is_noop[of "''e3''" mail1 out1 "''m3''" sms1]
  from t[THEN conjunct1, rule_format, OF e] t[THEN conjunct2, rule_format, OF m]
  show ?thesis by (rule conjI)
qed

text \<open>
  Claim C8.  When the provider call of a queued message throws, the synchronous send
  throws the provider's error to its caller and leaves the message \<open>FAILED\<close>.  In a batch,
  on a table with unique identifiers, every message of the batch ends as its own dispatch
  decides, \<open>SENT\<close> when its provider call resolves and \<open>FAILED\<close> when it throws or the
  provider is not supported, whatever happened to the other messages of the batch.
\<close>

theorem provider_failure_marks_failed_and_batch_continues:
  assumes de: "distinct (map email_id (emails w))"
    and dm: "distinct (map sms_id (smsMessages v))"
  shows "(\<forall>e. findFirst (\<lambda>e. email_id e = i) (emails w) = Some e \<and> email_status e = QUEUED
             \<and> (ea_provider (email_account e) = SENDGRID \<and> truthy_str (ea_apiKey (email_account e))
                \<or> ea_provider (email_account e) = SMTP)
             \<and> \<not> resolves out i
           \<longrightarrow> fst (EmailSender_send out i w) = Inl ProviderError
               \<and> email_status_of i (snd (EmailSender_send out i w)) = Some FAILED)
       \<and> (\<forall>m. findFirst (\<lambda>m. sms_id m = j) (smsMessages v) = Some m \<and> sms_status m = QUEUED
             \<and> sms_provider m = TWILIO \<and> \<not> resolves out j
           \<longrightarrow> fst (SmsSender_send out j v) = Inl ProviderError
               \<and> sms_status_of j (snd (SmsSender_send out j v)) = Some FAILED)
       \<and> (\<forall>x \<in> set (queuedEmails w).
             email_status_of (email_id x) (EmailSender_processQueue out w)
               = Some (if email_goes_out out x then SENT else FAILED))
       \<and> (\<forall>x \<in> set (queuedMessages v).
             sms_status_of (sms_id x) (SmsSender_processQueue out v)
               = Some (if sms_goes_out out x then SENT else FAILED))"
proof (intro conjI allI impI ballI)
  fix e
  assume h: "findFirst (\<lambda>e. email_id e = i) (emails w) = Some e \<and> email_status e = QUEUED
             \<and> (ea_provider (email_account e) = SENDGRID \<and> truthy_str (ea_apiKey (email_account e))
                \<or> ea_provider (email_account e) = SMTP)
             \<and> \<not> resolves out i"
  then show "fst (EmailSender_send out i w) = Inl ProviderError"
    using email_send_throws[of i w e out] by blast
  from h findFirst_SomeD[of "\<lambda>e. email_id e = i" "emails w" e]
  have "\<not> email_goes_out out e" by (simp add: email_goes_out_def)
  with h email_send_own_status[of i w e out]
  show "email_status_of i (snd (EmailSender_send out i w)) = Some FAILED" by simp
next
  fix m
  assume h: "findFirst (\<lambda>m. sms_id m = j) (smsMessages v) = Some m \<and> sms_status m = QUEUED
             \<and> sms_provider m = TWILIO \<and> \<not> resolves out j"
  then show "fst (SmsSender_send out j v) = Inl ProviderError"
    using sms_send_throws[of j v m out] by blast
  from h findFirst_SomeD[of "\<lambda>m. sms_id m = j" "smsMessages v" m]
  have "\<not> sms_goes_out out m" by (simp add: sms_goes_out_def)
  with h sms_send_own_status[of j v m out]
  show "sms_status_of j (snd (SmsSender_send out j v)) = Some FAILED" by simp
next
  fix x assume "x \<in> set (queuedEmails w)"
  from email_queue_item[OF de this]
  show "email_status_of (email_id x) (EmailSender_processQueue out w)
          = Some (if email_goes_out out x then SENT else FAILED)" .
next
  fix x assume "x \<in> set (queuedMessages v)"
  from sms_queue_item[OF dm this]
  show "sms_status_of (sms_id x) (SmsSender_processQueue out v)
          = Some (if sms_goes_out out x then SENT else FAILED)" .
qed

theorem provider_failure_marks_failed_and_batch_continues_witness:
  "fst (EmailSender_send out1 ''e1'' mail1) = Inl ProviderError
   \<and> email_status_of ''e1'' (snd (EmailSender_send out1 ''e1'' mail1)) = Some FAILED
   \<and> fst (SmsSender_send out1 ''m1'' sms1) = Inl ProviderError
   \<and> sms_status_of ''m1'' (snd (SmsSender_send out1 ''m1'' sms1)) = Some FAILED
   \<and> email_status_of ''e1'' (EmailSender_processQueue out1 mail1) = Some FAILED
   \<and> email_status_of ''e2'' (EmailSender_processQueue out1 mail1) = Some SENT
   \<and> sms_status_of ''m1'' (SmsSender_processQueue out1 sms1) = Some FAILED
   \<and> sms_status_of ''m2'' (SmsSender_processQueue out1 sms1) = Some SENT"
proof -
  have de: "distinct (map email_id (emails mail1))" by code_simp
  have dm: "distinct (map sms_id (smsMessages sms1))" by code_simp
  have e1: "findFirst (\<lambda>e. email_id e = ''e1'') (emails mail1) = Some (queued_email ''e1'' SENDGRID 10)
            \<and> email_status (queued_email ''e1'' SENDGRID 10) = QUEUED
            \<and> (ea_provider (email_account (queued_email ''e1'' SENDGRID 10)) = SENDGRID
                 \<and> truthy_str (ea_apiKey (email_account (queued_email ''e1'' SENDGRID 10)))
               \<or> ea_provider (email_account (queued_email ''e1'' SENDGRID 10)) = SMTP)
            \<and> \<not> resolves out1 ''e1''"
    by code_simp
  have m1: "findFirst (\<lambda>m. sms_id m = ''m1'') (smsMessages sms1) = Some (queued_sms ''m1'' 10)
            \<and> sms_status (queued_sms ''m1'' 10) = QUEUED
            \<and> sms_provider (queued_sms ''m1'' 10) = TWILIO \<and> \<not> resolves out1 ''m1''"
    by code_simp
  have qe: "queued_email ''e1'' SENDGRID 10 \<in> set (queuedEmails mail1)"
    "queued_email ''e2'' SMTP 20 \<in> set (queuedEmails mail1)"
    by code_simp+
  have qm: "queued_sms ''m1'' 10 \<in> set (queuedMessages sms1)"
    "queued_sms ''m2'' 20 \<in> set (queuedMessages sms1)"
    by code_simp+
  have g: "\<not> email_goes_out out1 (queued_email ''e1'' SENDGRID 10)"
    "email_goes_out out1 (queued_email ''e2'' SMTP 20)"
    "\<not> sms_goes_out out1 (queued_sms ''m1'' 10)" "sms_goes_out out1 (queued_sms ''m2'' 20)"
    by code_simp+
  have ids: "email_id (queued_email ''e1'' SENDGRID 10) = ''e1''"
    "email_id (queued_email ''e2'' SMTP 20) = ''e2''"
    "sms_id (queued_sms ''m1'' 10) = ''m1''" "sms_id (queued_sms ''m2'' 20) = ''m2''"
    by (simp_all add: queued_email_def queued_sms_def)
  note t = provider_failure_marks_failed_and_batch_continues[OF de dm, of "''e1''" out1 "''m1''"]
  note a = t[THEN conjunct1, rule_format, OF e1]
  note b = t[THEN conjunct2, THEN conjunct1, rule_format, OF m1]
  note c1 = t[THEN conjunct2, THEN conjunct2, THEN conjunct1, rule_format, OF qe(1)]
  note c2 = t[THEN conjunct2, THEN conjunct2, THEN conjunct1, rule_format, OF qe(2)]
  note d1 = t[THEN conjunct2, THEN conjunct2, THEN conjunct2, rule_format, OF qm(1)]
  note d2 = t[THEN conjunct2, THEN conjunct2, THEN conjunct2, rule_format, OF qm(2)]
  from a b c1 c2 d1 d2 show ?thesis unfolding ids using g by simp
qed

section \<open>Properties of the webhooks\<close>

lemma findFirst_updateMany_pres:
  assumes "\<And>r. P (f r) = P r"
  shows "findFirst P (updateMany Q f xs)
           = map_option (\<lambda>r. if Q r then f r else r) (findFirst P xs)"
  unfolding findFirst_def updateMany_def by (induction xs) (auto simp: assms)

lemma found_after_update:
  assumes "findFirst (\<lambda>e. email_trackingId e = t \<and> R e) es = Some email"
    and "\<And>r. email_trackingId (f r) = email_trackingId r" "\<And>r. R (f r) = R r"
  shows "findFirst (\<lambda>e. email_trackingId e = t \<and> R e) (update_email (email_id email) f es)
           = Some (f email)"
  unfolding update_email_def
  using findFirst_updateMany_pres[of "\<lambda>e. email_trackingId e = t \<and> R e" f
      "\<lambda>e. email_id e = email_id email" es] assms
  by simp

lemma found_after_update':
  assumes "findFirst (\<lambda>e. email_trackingId e = t) es = Some email"
    and "\<And>r. email_trackingId (f r) = email_trackingId r"
  shows "findFirst (\<lambda>e. email_trackingId e = t) (update_email (email_id email) f es)
           = Some (f email)"
  using found_after_update[of t "\<lambda>e. True" es email f] assms by simp

lemma handle_open_replay:
  assumes "ev_event ev = ''open''"
  shows "handle_event t2 ev (handle_event t1 ev es) = handle_event t1 ev es"
proof (cases "truthy_str (event_trackingId ev)")
  case False
  then show ?thesis by (simp add: handle_event_def)
next
  case True
  show ?thesis
  proof (cases "findFirst (\<lambda>e. email_trackingId e = event_trackingId ev) es")
    case None
    with True show ?thesis by (simp add: handle_event_def)
  next
    case (Some email)
    show ?thesis
    proof (cases "email_openedAt email = None")
      case False
      with True Some assms have "\<And>t. handle_event t ev es = es"
        by (auto simp: handle_event_def)
      then show ?thesis by simp
    next
      case unopened: True
      let ?f = "\<lambda>e. e\<lparr>email_status := OPENED, email_openedAt := Some t1\<rparr>"
      from True Some assms unopened
      have first: "handle_event t1 ev es = update_email (email_id email) ?f es"
        by (simp add: handle_event_def)
      from found_after_update'[OF Some, of ?f]
      have "findFirst (\<lambda>e. email_trackingId e = event_trackingId ev)
              (update_email (email_id email) ?f es) = Some (?f email)"
        by simp
      with True assms show ?thesis
        unfolding first by (simp add: handle_event_def)
    qed
  qed
qed

lemma handle_click_replay:
  assumes "ev_event ev = ''click''"
  shows "handle_event t2 ev (handle_event t1 ev es) = handle_event t1 ev es"
proof (cases "truthy_str (event_trackingId ev)")
  case False
  then show ?thesis by (simp add: handle_event_def)
next
  case True
  show ?thesis
  proof (cases "findFirst (\<lambda>e. email_trackingId e = event_trackingId ev) es")
    case None
    with True show ?thesis by (simp add: handle_event_def)
  next
    case (Some email)
    show ?thesis
    proof (cases "email_clickedAt email = None")
      case False
      with True Some assms have "\<And>t. handle_event t ev es = es"
        by (auto simp: handle_event_def)
      then show ?thesis by simp
    next
      case unclicked: True
      let ?f = "\<lambda>e. e\<lparr>email_status := CLICKED, email_clickedAt := Some t1\<rparr>"
      from True Some assms unclicked
      have first: "handle_event t1 ev es = update_email (email_id email) ?f es"
        by (simp add: handle_event_def)
      from found_after_update'[OF Some, of ?f]
      have "findFirst (\<lambda>e. email_trackingId e = event_trackingId ev)
              (update_email (email_id email) ?f es) = Some (?f email)"
        by simp
      with True assms show ?thesis
        unfolding first by (simp add: handle_event_def)
    qed
  qed
qed

lemma trackOpen_replay:
  "emailRouter_trackOpen c tid t2 (emailRouter_trackOpen c tid t1 es)
     = emailRouter_trackOpen c tid t1 es"
proof (cases "findFirst (\<lambda>e. email_trackingId e = Some tid \<and> email_tenantId e = ctx_tenantId c) es")
  case None
  then show ?thesis by (simp add: emailRouter_trackOpen_def)
next
  case (Some email)
  show ?thesis
  proof (cases "email_openedAt email = None")
    case False
    with Some have "\<And>t. emailRouter_trackOpen c tid t es = es"
      by (auto simp: emailRouter_trackOpen_def)
    then show ?thesis by simp
  next
    case True
    let ?f = "\<lambda>e. e\<lparr>email_status := OPENED, email_openedAt := Some t1\<rparr>"
    from Some True
    have first: "emailRouter_trackOpen c tid t1 es = update_email (email_id email) ?f es"
      by (simp add: emailRouter_trackOpen_def)
    from found_after_update[OF Some, of ?f]
    have "findFirst (\<lambda>e. email_trackingId e = Some tid \<and> email_tenantId e = ctx_tenantId c)
            (update_email (email_id email) ?f es) = Some (?f email)"
      by simp
    then show ?thesis
      unfolding first by (simp add: emailRouter_trackOpen_def)
  qed
qed

lemma trackClick_replay:
  "emailRouter_trackClick c tid t2 (emailRouter_trackClick c tid t1 es)
     = emailRouter_trackClick c tid t1 es"
proof (cases "findFirst (\<lambda>e. email_trackingId e = Some tid \<and> email_tenantId e = ctx_tenantId c) es")
  case None
  then show ?thesis by (simp add: emailRouter_trackClick_def)
next
  case (Some email)
  show ?thesis
  proof (cases "email_clickedAt email = None")
    case False
    with Some have "\<And>t. emailRouter_trackClick c tid t es = es"
      by (auto simp: emailRouter_trackClick_def)
    then show ?thesis by simp
  next
    case True
    let ?f = "\<lambda>e. e\<lparr>email_status := CLICKED, email_clickedAt := Some t1\<rparr>"
    from Some True
    have first: "emailRouter_trackClick c tid t1 es = update_email (email_id email) ?f es"
      by (simp add: emailRouter_trackClick_def)
    from found_after_update[OF Some, of ?f]
    have "findFirst (\<lambda>e. email_trackingId e = Some tid \<and> email_tenantId e = ctx_tenantId c)
            (update_email (email_id email) ?f es) = Some (?f email)"
      by simp
    then show ?thesis
      unfolding first by (simp add: emailRouter_trackClick_def)
  qed
qed

lemma handle_first_effect:
  assumes "tid \<noteq> []" "tracked tid es = Some e"
  shows "email_openedAt e = None \<Longrightarrow>
           tracked tid (handle_event now (event_of ''open'' tid) es)
             = Some (e\<lparr>email_status := OPENED, email_openedAt := Some now\<rparr>)"
    and "email_clickedAt e = None \<Longrightarrow>
           tracked tid (handle_event now (event_of ''click'' tid) es)
             = Some (e\<lparr>email_status := CLICKED, email_clickedAt := Some now\<rparr>)"
    and "tracked tid (handle_event now (event_of ''delivered'' tid) es)
           = Some (e\<lparr>email_status := DELIVERED\<rparr>)"
    and "tracked tid (handle_event now (event_of ''bounce'' tid) es)
           = Some (e\<lparr>email_status := BOUNCED\<rparr>)"
    and "tracked tid (handle_event now (event_of ''dropped'' tid) es)
           = Some (e\<lparr>email_status := BOUNCED\<rparr>)"
  using assms found_after_update'[of "Some tid" es e]
  by (simp_all add: handle_event_def event_of_def event_trackingId_def tracked_def)

lemma handle_repeat_effect:
  assumes "tid \<noteq> []" "tracked tid es = Some e"
  shows "email_openedAt e \<noteq> None \<Longrightarrow> handle_event now (event_of ''open'' tid) es = es"
    and "email_clickedAt e \<noteq> None \<Longrightarrow> handle_event now (event_of ''click'' tid) es = es"
  using assms
  by (auto simp: handle_event_def event_of_def event_trackingId_def tracked_def)

lemma track_first_effect:
  assumes "tracked_by c tid es = Some e"
  shows "email_openedAt e = None \<Longrightarrow>
           tracked_by c tid (emailRouter_trackOpen c tid now es)
             = Some (e\<lparr>email_status := OPENED, email_openedAt := Some now\<rparr>)"
    and "email_clickedAt e = None \<Longrightarrow>
           tracked_by c tid (emailRouter_trackClick c tid now es)
             = Some (e\<lparr>email_status := CLICKED, email_clickedAt := Some now\<rparr>)"
  using assms found_after_update[of "Some tid" "\<lambda>e. email_tenantId e = ctx_tenantId c" es e]
  by (simp_all add: emailRouter_trackOpen_def emailRouter_trackClick_def tracked_by_def)

lemma track_repeat_effect:
  assumes "tracked_by c tid es = Some e"
  shows "email_openedAt e \<noteq> None \<Longrightarrow> emailRouter_trackOpen c tid now es = es"
    and "email_clickedAt e \<noteq> None \<Longrightarrow> emailRouter_trackClick c tid now es = es"
  using assms
  by (auto simp: emailRouter_trackOpen_def emailRouter_trackClick_def tracked_by_def)

text \<open>
  Claim C9.  Handling the same \<open>open\<close> or \<open>click\<close> event a second time, at any later clock
  reading, leaves the table exactly as the first handling left it; so do a second
  \<open>trackOpen\<close> and a second \<open>trackClick\<close>.  For an email found by a non-empty tracking id:
  if it was not opened (clicked) before, then after the event and its replay it is \<open>OPENED\<close>
  (\<open>CLICKED\<close>) with the timestamp of the first handling; and a \<open>delivered\<close>, \<open>bounce\<close> or
  \<open>dropped\<close> event sets the status to \<open>DELIVERED\<close>, \<open>BOUNCED\<close>, \<open>BOUNCED\<close> whatever it was.
  Likewise for an email \<open>trackOpen\<close> (\<open>trackClick\<close>) finds for the caller's tenant: if it
  was not opened (clicked) before, then after the call and its repetition it is \<open>OPENED\<close>
  (\<open>CLICKED\<close>) with the timestamp of the first call.  An email that was opened (clicked)
  before is left as it is, with the whole table, by the event and by the call.
\<close>

theorem webhook_replay_idempotent:
  "(ev_event ev = ''open'' \<or> ev_event ev = ''click'' \<longrightarrow>
      handleSendGridWebhook [(t1, ev), (t2, ev)] es = handleSendGridWebhook [(t1, ev)] es)
   \<and> emailRouter_trackOpen c tid t2 (emailRouter_trackOpen c tid t1 es)
       = emailRouter_trackOpen c tid t1 es
   \<and> emailRouter_trackClick c tid t2 (emailRouter_trackClick c tid t1 es)
       = emailRouter_trackClick c tid t1 es
   \<and> (tid \<noteq> [] \<and> tracked tid es = Some e \<longrightarrow>
        (email_openedAt e = None \<longrightarrow>
           tracked tid (handleSendGridWebhook [(t1, event_of ''open'' tid), (t2, event_of ''open'' tid)] es)
             = Some (e\<lparr>email_status := OPENED, email_openedAt := Some t1\<rparr>))
        \<and> (email_clickedAt e = None \<longrightarrow>
           tracked tid (handleSendGridWebhook [(t1, event_of ''click'' tid), (t2, event_of ''click'' tid)] es)
             = Some (e\<lparr>email_status := CLICKED, email_clickedAt := Some t1\<rparr>))
        \<and> map_option email_status (tracked tid (handleSendGridWebhook [(t1, event_of ''delivered'' tid)] es))
             = Some DELIVERED
        \<and> map_option email_status (tracked tid (handleSendGridWebhook [(t1, event_of ''bounce'' tid)] es))
             = Some BOUNCED
        \<and> map_option email_status (tracked tid (handleSendGridWebhook [(t1, event_of ''dropped'' tid)] es))
             = Some BOUNCED)
   \<and> (tracked_by c tid es = Some e' \<longrightarrow>
        (email_openedAt e' = None \<longrightarrow>
           tracked_by c tid (emailRouter_trackOpen c tid t2 (emailRouter_trackOpen c tid t1 es))
             = Some (e'\<lparr>email_status := OPENED, email_openedAt := Some t1\<rparr>))
        \<and> (email_clickedAt e' = None \<longrightarrow>
           tracked_by c tid (emailRouter_trackClick c tid t2 (emailRouter_trackClick c tid t1 es))
             = Some (e'\<lparr>email_status := CLICKED, email_clickedAt := Some t1\<rparr>))
        \<and> (email_openedAt e' \<noteq> None \<longrightarrow> emailRouter_trackOpen c tid t1 es = es)
        \<and> (email_clickedAt e' \<noteq> None \<longrightarrow> emailRouter_trackClick c tid t1 es = es))
   \<and> (tid \<noteq> [] \<and> tracked tid es = Some e \<longrightarrow>
        (email_openedAt e \<noteq> None \<longrightarrow>
           handleSendGridWebhook [(t1, event_of ''open'' tid)] es = es)
        \<and> (email_clickedAt e \<noteq> None \<longrightarrow>
           handleSendGridWebhook [(t1, event_of ''click'' tid)] es = es))"
proof (intro conjI impI)
  assume "ev_event ev = ''open'' \<or> ev_event ev = ''click''"
  then show "handleSendGridWebhook [(t1, ev), (t2, ev)] es = handleSendGridWebhook [(t1, ev)] es"
    using handle_open_replay[of ev t2 t1 es] handle_click_replay[of ev t2 t1 es] by auto
next
  show "emailRouter_trackOpen c tid t2 (emailRouter_trackOpen c tid t1 es)
          = emailRouter_trackOpen c tid t1 es"
    by (rule trackOpen_replay)
  show "emailRouter_trackClick c tid t2 (emailRouter_trackClick c tid t1 es)
          = emailRouter_trackClick c tid t1 es"
    by (rule trackClick_replay)
next
  assume h: "tid \<noteq> [] \<and> tracked tid es = Some e" and u: "email_openedAt e = None"
  have k: "ev_event (event_of ''open'' tid) = ''open''" by (simp add: event_of_def)
  from handle_first_effect(1)[of tid es e t1] h u handle_open_replay[OF k, of t2 t1 es]
  show "tracked tid (handleSendGridWebhook [(t1, event_of ''open'' tid), (t2, event_of ''open'' tid)] es)
          = Some (e\<lparr>email_status := OPENED, email_openedAt := Some t1\<rparr>)"
    by simp
next
  assume h: "tid \<noteq> [] \<and> tracked tid es = Some e" and u: "email_clickedAt e = None"
  have k: "ev_event (event_of ''click'' tid) = ''click''" by (simp add: event_of_def)
  from handle_first_effect(2)[of tid es e t1] h u handle_click_replay[OF k, of t2 t1 es]
  show "tracked tid (handleSendGridWebhook [(t1, event_of ''click'' tid), (t2, event_of ''click'' tid)] es)
          = Some (e\<lparr>email_status := CLICKED, email_clickedAt := Some t1\<rparr>)"
    by simp
next
  assume h: "tid \<noteq> [] \<and> tracked tid es = Some e"
  with handle_first_effect(3)[of tid es e t1]
  show "map_option email_status (tracked tid (handleSendGridWebhook [(t1, event_of ''delivered'' tid)] es))
          = Some DELIVERED"
    by simp
  from h handle_first_effect(4)[of tid es e t1]
  show "map_option email_status (tracked tid (handleSendGridWebhook [(t1, event_of ''bounce'' tid)] es))
          = Some BOUNCED"
    by simp
  from h handle_first_effect(5)[of tid es e t1]
  show "map_option email_status (tracked tid (handleSendGridWebhook [(t1, event_of ''dropped'' tid)] es))
          = Some BOUNCED"
    by simp
next
  assume h: "tracked_by c tid es = Some e'" and u: "email_openedAt e' = None"
  from track_first_effect(1)[OF h u, of t1] trackOpen_replay[of c tid t2 t1 es]
  show "tracked_by c tid (emailRouter_trackOpen c tid t2 (emailRouter_trackOpen c tid t1 es))
          = Some (e'\<lparr>email_status := OPENED, email_openedAt := Some t1\<rparr>)"
    by simp
next
  assume h: "tracked_by c tid es = Some e'" and u: "email_clickedAt e' = None"
  from track_first_effect(2)[OF h u, of t1] trackClick_replay[of c tid t2 t1 es]
  show "tracked_by c tid (emailRouter_trackClick c tid t2 (emailRouter_trackClick c tid t1 es))
          = Some (e'\<lparr>email_status := CLICKED, email_clickedAt := Some t1\<rparr>)"
    by simp
next
  assume h: "tracked_by c tid es = Some e'" and u: "email_openedAt e' \<noteq> None"
  from track_repeat_effect(1)[OF h u] show "emailRouter_trackOpen c tid t1 es = es" .
next
  assume h: "tracked_by c tid es = Some e'" and u: "email_clickedAt e' \<noteq> None"
  from track_repeat_effect(2)[OF h u] show "emailRouter_trackClick c tid t1 es = es" .
next
  assume h: "tid \<noteq> [] \<and> tracked tid es = Some e" and u: "email_openedAt e \<noteq> None"
  from h handle_repeat_effect(1)[of tid es e, OF _ _ u, of t1]
  show "handleSendGridWebhook [(t1, event_of ''open'' tid)] es = es" by simp
next
  assume h: "tid \<noteq> [] \<and> tracked tid es = Some e" and u: "email_clickedAt e \<noteq> None"
  from h handle_repeat_effect(2)[of tid es e, OF _ _ u, of t1]
  show "handleSendGridWebhook [(t1, event_of ''click'' tid)] es = es" by simp
qed

theorem webhook_replay_idempotent_witness:
  "handleSendGridWebhook [(100, event_of ''open'' ''trk-e1''), (200, event_of ''open'' ''trk-e1'')]
       (emails mail1)
     = handleSendGridWebhook [(100, event_of ''open'' ''trk-e1'')] (emails mail1)
   \<and> tracked ''trk-e1''
        (handleSendGridWebhook [(100, event_of ''open'' ''trk-e1''), (200, event_of ''open'' ''trk-e1'')]
           (emails mail1))
       = Some ((queued_email ''e1'' SENDGRID 10)\<lparr>email_status := OPENED, email_openedAt := Some 100\<rparr>)
   \<and> tracked ''trk-e1''
        (handleSendGridWebhook [(100, event_of ''click'' ''trk-e1''), (200, event_of ''click'' ''trk-e1'')]
           (emails mail1))
       = Some ((queued_email ''e1'' SENDGRID 10)\<lparr>email_status := CLICKED, email_clickedAt := Some 100\<rparr>)
   \<and> map_option email_status
        (tracked ''trk-e1'' (handleSendGridWebhook [(300, event_of ''bounce'' ''trk-e1'')] (emails mail1)))
       = Some BOUNCED
   \<and> tracked_by ctx1 ''trk-e1''
        (emailRouter_trackOpen ctx1 ''trk-e1'' 200 (emailRouter_trackOpen ctx1 ''trk-e1'' 100 (emails mail1)))
       = Some ((queued_email ''e1'' SENDGRID 10)\<lparr>email_status := OPENED, email_openedAt := Some 100\<rparr>)
   \<and> tracked_by ctx1 ''trk-e1''
        (emailRouter_trackClick ctx1 ''trk-e1'' 200 (emailRouter_trackClick ctx1 ''trk-e1'' 100 (emails mail1)))
       = Some ((queued_email ''e1'' SENDGRID 10)\<lparr>email_status := CLICKED, email_clickedAt := Some 100\<rparr>)
   \<and> emailRouter_trackOpen ctx1 ''trk-e1'' 300 (emailRouter_trackOpen ctx1 ''trk-e1'' 100 (emails mail1))
       = emailRouter_trackOpen ctx1 ''trk-e1'' 100 (emails mail1)
   \<and> emailRouter_trackClick ctx1 ''trk-e1'' 300 (emailRouter_trackClick ctx1 ''trk-e1'' 100 (emails mail1))
       = emailRouter_trackClick ctx1 ''trk-e1'' 100 (emails mail1)
   \<and> handleSendGridWebhook [(300, event_of ''open'' ''trk-e1'')]
        (handleSendGridWebhook [(100, event_of ''open'' ''trk-e1'')] (emails mail1))
       = handleSendGridWebhook [(100, event_of ''open'' ''trk-e1'')] (emails mail1)
   \<and> handleSendGridWebhook [(300, event_of ''click'' ''trk-e1'')]
        (handleSendGridWebhook [(100, event_of ''click'' ''trk-e1'')] (emails mail1))
       = handleSendGridWebhook [(100, event_of ''click'' ''trk-e1'')] (emails mail1)"
proof -
  let ?e = "queued_email ''e1'' SENDGRID 10"
  let ?eo = "?e\<lparr>email_status := OPENED, email_openedAt := Some 100\<rparr>"
  let ?ec = "?e\<lparr>email_status := CLICKED, email_clickedAt := Some 100\<rparr>"
  let ?ev = "event_of ''open'' ''trk-e1''"
  let ?to = "emailRouter_trackOpen ctx1 ''trk-e1'' 100 (emails mail1)"
  let ?tc = "emailRouter_trackClick ctx1 ''trk-e1'' 100 (emails mail1)"
  let ?ho = "handleSendGridWebhook [(100, event_of ''open'' ''trk-e1'')] (emails mail1)"
  let ?hc = "handleSendGridWebhook [(100, event_of ''click'' ''trk-e1'')] (emails mail1)"
  have k: "ev_event ?ev = ''open'' \<or> ev_event ?ev = ''click''"
    by (simp add: event_of_def)
  have f: "''trk-e1'' \<noteq> [] \<and> tracked ''trk-e1'' (emails mail1) = Some ?e"
    by code_simp
  have g: "tracked_by ctx1 ''trk-e1'' (emails mail1) = Some ?e"
    by code_simp
  have u: "email_openedAt ?e = None" and u': "email_clickedAt ?e = None"
    by (simp_all add: queued_email_def)
  have go: "tracked_by ctx1 ''trk-e1'' ?to = Some ?eo"
    and gc: "tracked_by ctx1 ''trk-e1'' ?tc = Some ?ec"
    by code_simp+
  have fo: "''trk-e1'' \<noteq> [] \<and> tracked ''trk-e1'' ?ho = Some ?eo"
    and fc: "''trk-e1'' \<noteq> [] \<and> tracked ''trk-e1'' ?hc = Some ?ec"
    by code_simp+
  have n: "email_openedAt ?eo \<noteq> None" and n': "email_clickedAt ?ec \<noteq> None"
    by simp_all
  note t = webhook_replay_idempotent[of ?ev 100 200 "emails mail1" ctx1 "''trk-e1''" ?e ?e]
  note a = t[THEN conjunct1, rule_format, OF k]
  note r = t[THEN conjunct2, THEN conjunct2, THEN conjunct2, THEN conjunct1, rule_format, OF f]
  note b = r[THEN conjunct1, rule_format, OF u]
  note b' = r[THEN conjunct2, THEN conjunct1, rule_format, OF u']
  note q = t[THEN conjunct2, THEN conjunct2, THEN conjunct2, THEN conjunct2, THEN conjunct1,
      rule_format, OF g]
  note p = q[THEN conjunct1, rule_format, OF u]
  note p' = q[THEN conjunct2, THEN conjunct1, rule_format, OF u']
  note t' = webhook_replay_idempotent[of ?ev 300 200 "emails mail1" ctx1 "''trk-e1''" ?e ?e]
  note r' = t'[THEN conjunct2, THEN conjunct2, THEN conjunct2, THEN conjunct1, rule_format, OF f]
  note d = r'[THEN conjunct2, THEN conjunct2, THEN conjunct2, THEN conjunct1]
  note so = webhook_replay_idempotent[of ?ev 300 200 ?to ctx1 "''trk-e1''" ?e ?eo,
      THEN conjunct2, THEN conjunct2, THEN conjunct2, THEN conjunct2, THEN conjunct1,
      rule_format, OF go, THEN conjunct2, THEN conjunct2, THEN conjunct1, rule_format, OF n]
  note sc = webhook_replay_idempotent[of ?ev 300 200 ?tc ctx1 "''trk-e1''" ?e ?ec,
      THEN conjunct2, THEN conjunct2, THEN conjunct2, THEN conjunct2, THEN conjunct1,
      rule_format, OF gc, THEN conjunct2, THEN conjunct2, THEN conjunct2, rule_format, OF n']
  note wo = webhook_replay_idempotent[of ?ev 300 200 ?ho ctx1 "''trk-e1''" ?eo ?e,
      THEN conjunct2, THEN conjunct2, THEN conjunct2, THEN conjunct2, THEN conjunct2,
      rule_format, OF fo, THEN conjunct1, rule_format, OF n]
  note wc = webhook_replay_idempotent[of ?ev 300 200 ?hc ctx1 "''trk-e1''" ?ec ?e,
      THEN conjunct2, THEN conjunct2, THEN conjunct2, THEN conjunct2, THEN conjunct2,
      rule_format, OF fc, THEN conjunct2, rule_format, OF n']
  from a b b' d p p' so sc wo wc show ?thesis by blast
qed

section \<open>Properties of the list queries\<close>

lemma pop_next_take:
  "pop_next key L (take (L + 1) W)
     = (take L W, if L < length W then Some (key (W ! L)) else None)"
proof (cases "L < length W")
  case True
  then have len: "length (take (L + 1) W) = L + 1" by simp
  from True have "butlast (take (L + 1) W) = take L W"
    by (simp add: butlast_take)
  moreover from True have "last (take (L + 1) W) = W ! L"
    using last_conv_nth[of "take (L + 1) W"] len by (simp add: take_Suc_conv_app_nth)
  ultimately show ?thesis using True len by (simp add: pop_next_def)
next
  case False
  then show ?thesis by (simp add: pop_next_def)
qed

lemma list_query_page:
  assumes "valid_limit L"
  shows "page_spec key L (matching key ca wh cursor rows) (list_query key ca wh cursor L rows)"
  using assms unfolding list_query_def findMany_def pop_next_take
  by (simp add: page_spec_def)

lemma dropWhile_key_nth:
  "distinct (map key xs) \<Longrightarrow> n < length xs \<Longrightarrow>
     dropWhile (\<lambda>r. key r \<noteq> key (xs ! n)) xs = drop n xs"
proof (induction xs arbitrary: n)
  case Nil
  then show ?case by simp
next
  case (Cons x xs)
  show ?case
  proof (cases n)
    case 0
    then show ?thesis by simp
  next
    case (Suc m)
    with Cons.prems have m: "m < length xs" and d: "distinct (map key xs)"
      and nx: "key x \<notin> key ` set xs" by auto
    from m nx have "key x \<noteq> key (xs ! m)" by (metis imageI nth_mem)
    with Cons.IH[OF d m] Suc show ?thesis by simp
  qed
qed

lemma matching_continues:
  assumes dist: "distinct (map key rows)"
    and more: "L < length (matching key ca wh cursor rows)"
    and ne: "key (matching key ca wh cursor rows ! L) \<noteq> []"
  shows "matching key ca wh (Some (key (matching key ca wh cursor rows ! L))) rows
           = drop L (matching key ca wh cursor rows)"
proof -
  let ?S = "rev (sort_key ca (filter wh rows))"
  let ?W = "matching key ca wh cursor rows"
  from dist have "distinct (filter wh rows) \<and> inj_on key (set (filter wh rows))"
    by (auto simp: distinct_map intro: inj_on_subset)
  then have dS: "distinct (map key ?S)"
    by (simp add: distinct_map)
  have "\<exists>k. ?W = drop k ?S"
  proof (cases "truthy_str cursor")
    case True
    then show ?thesis
      by (auto simp: matching_def from_cursor_def dropWhile_eq_drop)
  next
    case False
    then have "?W = drop 0 ?S" by (simp add: matching_def from_cursor_def)
    then show ?thesis by (rule exI)
  qed
  then obtain k where W: "?W = drop k ?S" ..
  from more W have kL: "k + L < length ?S" by simp
  from W kL have nth: "?W ! L = ?S ! (k + L)" by simp
  have "matching key ca wh (Some (key (?W ! L))) rows
          = dropWhile (\<lambda>r. key r \<noteq> key (?S ! (k + L))) ?S"
    using ne by (simp add: matching_def[of key ca wh "Some _"] from_cursor_def nth)
  also have "\<dots> = drop (k + L) ?S"
    by (rule dropWhile_key_nth[OF dS kL])
  also have "\<dots> = drop L ?W"
    by (simp add: W add.commute)
  finally show ?thesis .
qed

text \<open>
  Claim C10.  With a limit the input schema accepts, each of the three list procedures
  returns the first \<open>limit\<close> of the rows that match beyond the cursor, a next cursor exactly
  when more than \<open>limit\<close> rows match, and as next cursor the identifier of the row that
  follows the page.  On a table with unique identifiers, the rows that match beyond that
  next cursor are the rows after the page, so the following page starts with that row.
\<close>

theorem list_page_and_next_cursor:
  "(valid_limit (dli_limit di) \<longrightarrow>
      page_spec deal_id (dli_limit di)
        (matching deal_id deal_createdAt (deal_list_where c di) (dli_cursor di) ds)
        (dealRouter_list c di ds))
   \<and> (valid_limit (cli_limit ci) \<longrightarrow>
      page_spec contact_id (cli_limit ci)
        (matching contact_id contact_createdAt wh (cli_cursor ci) cs)
        (contactRouter_list wh ci cs))
   \<and> (valid_limit (eli_limit ei) \<longrightarrow>
      page_spec email_id (eli_limit ei)
        (matching email_id email_createdAt (email_list_where c ei) (eli_cursor ei) es)
        (emailRouter_list c ei es))
   \<and> (distinct (map key rows) \<and> L < length (matching key ca p cursor rows)
        \<and> key (matching key ca p cursor rows ! L) \<noteq> [] \<longrightarrow>
      matching key ca p (Some (key (matching key ca p cursor rows ! L))) rows
        = drop L (matching key ca p cursor rows))"
proof (intro conjI impI)
  assume "valid_limit (dli_limit di)"
  then show "page_spec deal_id (dli_limit di)
        (matching deal_id deal_createdAt (deal_list_where c di) (dli_cursor di) ds)
        (dealRouter_list c di ds)"
    unfolding dealRouter_list_def by (rule list_query_page)
next
  assume "valid_limit (cli_limit ci)"
  then show "page_spec contact_id (cli_limit ci)
        (matching contact_id contact_createdAt wh (cli_cursor ci) cs)
        (contactRouter_list wh ci cs)"
    unfolding contactRouter_list_def by (rule list_query_page)
next
  assume "valid_limit (eli_limit ei)"
  then show "page_spec email_id (eli_limit ei)
        (matching email_id email_createdAt (email_list_where c ei) (eli_cursor ei) es)
        (emailRouter_list c ei es)"
    unfolding emailRouter_list_def by (rule list_query_page)
next
  assume "distinct (map key rows) \<and> L < length (matching key ca p cursor rows)
        \<and> key (matching key ca p cursor rows ! L) \<noteq> []"
  then show "matching key ca p (Some (key (matching key ca p cursor rows ! L))) rows
        = drop L (matching key ca p cursor rows)"
    using matching_continues[of key rows L ca p cursor] by blast
qed

theorem list_page_and_next_cursor_witness:
  "dealRouter_list ctx1 first_two three_deals
     = Inr ([acme_deal\<lparr>deal_id := ''c1'', deal_createdAt := 3000\<rparr>,
             acme_deal\<lparr>deal_id := ''c2'', deal_createdAt := 2000\<rparr>], Some ''c000'')
   \<and> matching deal_id deal_createdAt (deal_list_where ctx1 first_two) (Some ''c000'') three_deals
       = [acme_deal]
   \<and> contactRouter_list (\<lambda>x. contact_tenantId x = ''t1'') \<lparr> cli_cursor = None, cli_limit = 1 \<rparr>
        (contacts base_store)
       = Inr (contacts base_store, None)
   \<and> emailRouter_list ctx1
        \<lparr> eli_contactId = None, eli_status = Some QUEUED, eli_cursor = None, eli_limit = 1 \<rparr>
        (emails mail1)
       = Inr ([queued_email ''e2'' SMTP 20], Some ''e1'')"
proof -
  let ?ci = "\<lparr> cli_cursor = None, cli_limit = 1 \<rparr>"
  let ?ei = "\<lparr> eli_contactId = None, eli_status = Some QUEUED, eli_cursor = None, eli_limit = 1 \<rparr>"
  have v: "valid_limit (dli_limit first_two)" "valid_limit (cli_limit ?ci)" "valid_limit (eli_limit ?ei)"
    by code_simp+
  have W: "matching deal_id deal_createdAt (deal_list_where ctx1 first_two) None three_deals
           = [acme_deal\<lparr>deal_id := ''c1'', deal_createdAt := 3000\<rparr>,
              acme_deal\<lparr>deal_id := ''c2'', deal_createdAt := 2000\<rparr>, acme_deal]"
    by code_simp
  have Wc: "matching contact_id contact_createdAt (\<lambda>x. contact_tenantId x = ''t1'') None
              (contacts base_store) = contacts base_store"
    by code_simp
  have lc: "length (contacts base_store) = 1" by code_simp
  have We: "matching email_id email_createdAt (email_list_where ctx1 ?ei) None (emails mail1)
              = [queued_email ''e2'' SMTP 20, queued_email ''e1'' SENDGRID 10]"
    by code_simp
  have c: "dli_cursor first_two = None" "dli_limit first_two = 2"
    by (simp_all add: first_two_def)
  have sel: "cli_cursor ?ci = None" "cli_limit ?ci = 1" "eli_cursor ?ei = None" "eli_limit ?ei = 1"
    by simp_all
  have h: "distinct (map deal_id three_deals)
           \<and> 2 < length (matching deal_id deal_createdAt (deal_list_where ctx1 first_two) None three_deals)
           \<and> deal_id (matching deal_id deal_createdAt (deal_list_where ctx1 first_two) None three_deals ! 2)
               \<noteq> []"
    by code_simp
  have n: "deal_id (matching deal_id deal_createdAt (deal_list_where ctx1 first_two) None three_deals ! 2)
             = ''c000''"
    by code_simp
  note t = list_page_and_next_cursor[of first_two ctx1 three_deals ?ci
      "\<lambda>x. contact_tenantId x = ''t1''" "contacts base_store" ?ei "emails mail1" deal_id three_deals 2
      deal_createdAt "deal_list_where ctx1 first_two" None]
  note a = t[THEN conjunct1, rule_format, OF v(1)]
  note a2 = t[THEN conjunct2, THEN conjunct1, rule_format, OF v(2)]
  note a3 = t[THEN conjunct2, THEN conjunct2, THEN conjunct1, rule_format, OF v(3)]
  note b = t[THEN conjunct2, THEN conjunct2, THEN conjunct2, rule_format, OF h]
  from a have "dealRouter_list ctx1 first_two three_deals
     = Inr ([acme_deal\<lparr>deal_id := ''c1'', deal_createdAt := 3000\<rparr>,
             acme_deal\<lparr>deal_id := ''c2'', deal_createdAt := 2000\<rparr>], Some ''c000'')"
    unfolding c unfolding W
    by (auto simp: page_spec_def acme_deal_def split: sum.splits option.splits)
  moreover from b have "matching deal_id deal_createdAt (deal_list_where ctx1 first_two)
       (Some ''c000'') three_deals = [acme_deal]"
    unfolding n unfolding W by simp
  moreover from a2 have "contactRouter_list (\<lambda>x. contact_tenantId x = ''t1'') ?ci (contacts base_store)
       = Inr (contacts base_store, None)"
    unfolding sel unfolding Wc using lc
    by (auto simp: page_spec_def split: sum.splits option.splits)
  moreover from a3 have "emailRouter_list ctx1 ?ei (emails mail1)
       = Inr ([queued_email ''e2'' SMTP 20], Some ''e1'')"
    unfolding sel unfolding We
    by (auto simp: page_spec_def queued_email_def split: sum.splits option.splits)
  ultimately show ?thesis by blast
qed

section \<open>The stage ordering when positions are in range\<close>

lemma dense_insert:
  assumes d: "distinct os" and s: "set os = {0 ..< int (length os)}"
    and r: "0 \<le> ord" "ord \<le> int (length os)"
  shows "distinct (map (shift_up ord) os @ [ord])"
    and "set (map (shift_up ord) os @ [ord]) = {0 ..< int (length (map (shift_up ord) os @ [ord]))}"
proof -
  have inj: "inj_on (shift_up ord) (set os)"
    by (auto simp: inj_on_def shift_up_def split: if_splits)
  have notin: "ord \<notin> shift_up ord ` set os"
    by (auto simp: shift_up_def split: if_splits)
  from d inj notin show "distinct (map (shift_up ord) os @ [ord])"
    by (simp add: distinct_map)
  have img: "shift_up ord ` {0 ..< int (length os)} \<union> {ord} = {0 ..< int (length os) + 1}"
  proof (intro set_eqI iffI)
    fix x assume "x \<in> shift_up ord ` {0 ..< int (length os)} \<union> {ord}"
    with r show "x \<in> {0 ..< int (length os) + 1}"
      by (auto simp: shift_up_def split: if_splits)
  next
    fix x assume x: "x \<in> {0 ..< int (length os) + 1}"
    consider "x < ord" | "x = ord" | "ord < x" by linarith
    then show "x \<in> shift_up ord ` {0 ..< int (length os)} \<union> {ord}"
    proof cases
      case 1
      with x r have "x \<in> {0 ..< int (length os)}" "shift_up ord x = x"
        by (auto simp: shift_up_def)
      then show ?thesis by (metis UnI1 imageI)
    next
      case 2
      then show ?thesis by simp
    next
      case 3
      with x r have "x - 1 \<in> {0 ..< int (length os)}" "shift_up ord (x - 1) = x"
        by (auto simp: shift_up_def)
      then show ?thesis by (metis UnI1 imageI)
    qed
  qed
  have "set (map (shift_up ord) os @ [ord]) = shift_up ord ` {0 ..< int (length os)} \<union> {ord}"
    by (simp add: s)
  also note img
  also have "{0 ..< int (length os) + 1} = {0 ..< int (length (map (shift_up ord) os @ [ord]))}"
    by (simp add: add.commute)
  finally show "set (map (shift_up ord) os @ [ord])
      = {0 ..< int (length (map (shift_up ord) os @ [ord]))}" .
qed

lemma dense_delete:
  assumes d: "distinct os" and s: "set os = {0 ..< int (length os)}" and k: "k \<in> set os"
  shows "distinct (map (shift_down k) (filter (\<lambda>x. x \<noteq> k) os))"
    and "set (map (shift_down k) (filter (\<lambda>x. x \<noteq> k) os))
           = {0 ..< int (length (map (shift_down k) (filter (\<lambda>x. x \<noteq> k) os)))}"
proof -
  let ?R = "filter (\<lambda>x. x \<noteq> k) os"
  have inj: "inj_on (shift_down k) (set ?R)"
    by (auto simp: inj_on_def shift_down_def split: if_splits)
  with d show "distinct (map (shift_down k) ?R)"
    by (simp add: distinct_map)
  from d have "card (set ?R) = length ?R"
    using distinct_card[of ?R] by simp
  moreover have "set ?R = set os - {k}" by auto
  moreover from d have "card (set os) = length os" by (rule distinct_card)
  ultimately have len: "length ?R = length os - 1"
    using k by (simp add: card_Diff_singleton)
  from k s have pos: "0 < length os" "0 \<le> k" "k < int (length os)" by auto
  have img: "shift_down k ` ({0 ..< int (length os)} - {k}) = {0 ..< int (length os) - 1}"
  proof (intro set_eqI iffI)
    fix x assume "x \<in> shift_down k ` ({0 ..< int (length os)} - {k})"
    with pos show "x \<in> {0 ..< int (length os) - 1}"
      by (auto simp: shift_down_def split: if_splits)
  next
    fix x assume x: "x \<in> {0 ..< int (length os) - 1}"
    show "x \<in> shift_down k ` ({0 ..< int (length os)} - {k})"
    proof (cases "x < k")
      case True
      with x have "x \<in> {0 ..< int (length os)} - {k}" "shift_down k x = x"
        by (auto simp: shift_down_def)
      then show ?thesis by (metis imageI)
    next
      case False
      with x have "x + 1 \<in> {0 ..< int (length os)} - {k}" "shift_down k (x + 1) = x"
        by (auto simp: shift_down_def)
      then show ?thesis by (metis imageI)
    qed
  qed
  have "set (map (shift_down k) ?R) = shift_down k ` (set os - {k})"
    by auto
  also have "\<dots> = shift_down k ` ({0 ..< int (length os)} - {k})"
    by (simp only: s)
  also note img
  also from pos len have "{0 ..< int (length os) - 1} = {0 ..< int (length (map (shift_down k) ?R))}"
    by (simp add: of_nat_diff)
  finally show "set (map (shift_down k) ?R) = {0 ..< int (length (map (shift_down k) ?R))}" .
qed

lemma mint_id_inj: "mint_id a = mint_id b \<Longrightarrow> a = b"
  by (simp add: mint_id_def)

lemma minted_mono: "minted s x \<Longrightarrow> next_id s \<le> next_id s' \<Longrightarrow> minted s' x"
  by (auto simp: minted_def)

lemma minted_fresh: "minted s x \<Longrightarrow> next_id s \<le> k \<Longrightarrow> x \<noteq> mint_id k"
  by (auto simp: minted_def dest: mint_id_inj)

lemma dense_upto: "stage_orders pid s = map int [0 ..< n] \<Longrightarrow> dense_orders pid s"
  by (simp add: dense_orders_def distinct_map image_int_atLeastLessThan)

subsection \<open>\<open>create\<close>\<close>

lemma new_stages_fields:
  "map stage_id (new_stages pid k sis) = map (\<lambda>i. mint_id (k + i)) [0 ..< length sis]"
  "map stage_order (new_stages pid k sis) = map int [0 ..< length sis]"
  "st \<in> set (new_stages pid k sis) \<Longrightarrow> stage_pipelineId st = pid"
proof -
  have e: "map f (enumerate 0 sis) = map (\<lambda>i. f (i, sis ! i)) [0 ..< length sis]" for f :: "nat \<times> stage_input \<Rightarrow> 'b"
    by (rule nth_equalityI) (simp_all add: nth_enumerate_eq)
  show "map stage_id (new_stages pid k sis) = map (\<lambda>i. mint_id (k + i)) [0 ..< length sis]"
    by (simp add: new_stages_def e comp_def)
  show "map stage_order (new_stages pid k sis) = map int [0 ..< length sis]"
    by (simp add: new_stages_def e comp_def)
  show "st \<in> set (new_stages pid k sis) \<Longrightarrow> stage_pipelineId st = pid"
    by (auto simp: new_stages_def)
qed

lemma new_stages_orders:
  "map stage_order (filter (\<lambda>st. stage_pipelineId st = q) (new_stages pid k sis))
     = (if q = pid then map int [0 ..< length sis] else [])"
proof (cases "q = pid")
  case True
  then have "filter (\<lambda>st. stage_pipelineId st = q) (new_stages pid k sis) = new_stages pid k sis"
    by (auto simp: filter_id_conv new_stages_fields(3))
  with True show ?thesis by (simp add: new_stages_fields(2))
next
  case False
  then have "filter (\<lambda>st. stage_pipelineId st = q) (new_stages pid k sis) = []"
    by (auto simp: filter_empty_conv dest: new_stages_fields(3))
  with False show ?thesis by simp
qed

lemma create_keeps:
  assumes wk: "well_keyed s" and ad: "all_dense s"
  shows "well_keyed (snd (pipelineRouter_create c i s)) \<and> all_dense (snd (pipelineRouter_create c i s))"
proof (cases "pci_name i = [] \<or> pci_stages i = [] \<or> (\<exists>si \<in> set (pci_stages i). sti_name si = [])")
  case True
  then have "snd (pipelineRouter_create c i s) = s"
    by (simp add: pipelineRouter_create_def throw_def)
  with wk ad show ?thesis by simp
next
  case False
  let ?n = "next_id s"
  let ?pid = "mint_id ?n"
  let ?new = "new_stages ?pid (Suc ?n) (pci_stages i)"
  let ?s' = "snd (pipelineRouter_create c i s)"
  from False have st: "stages ?s' = stages s @ ?new"
    and nx: "next_id ?s' = Suc ?n + length (pci_stages i)"
    and ps: "\<exists>p. pipelines ?s' = pipelines s @ [p] \<and> pipeline_id p = ?pid"
    by (simp_all add: pipelineRouter_create_def Let_def)
  from wk have old: "\<And>x. x \<in> set (stages s) \<Longrightarrow> minted s (stage_id x) \<and> minted s (stage_pipelineId x)"
    and oldp: "\<And>p. p \<in> set (pipelines s) \<Longrightarrow> minted s (pipeline_id p)"
    and dist: "distinct (map stage_id (stages s))"
    by (auto simp: well_keyed_def list_all_iff)
  have newid: "set (map stage_id ?new) = (\<lambda>j. mint_id (Suc ?n + j)) ` {..< length (pci_stages i)}"
    by (auto simp: new_stages_fields(1) atLeast0LessThan)
  have "distinct (map stage_id ?new)"
    by (auto simp: new_stages_fields(1) distinct_map inj_on_def dest: mint_id_inj)
  moreover have "set (map stage_id (stages s)) \<inter> set (map stage_id ?new) = {}"
  proof -
    have "x \<in> set (stages s) \<Longrightarrow> stage_id x \<noteq> mint_id (Suc ?n + j)" for x j
      using old[of x] minted_fresh[of s "stage_id x" "Suc ?n + j"] by simp
    then show ?thesis unfolding newid by auto
  qed
  ultimately have d': "distinct (map stage_id (stages ?s'))"
    using dist by (simp add: st)
  have m1: "x \<in> set (stages ?s') \<Longrightarrow> minted ?s' (stage_id x) \<and> minted ?s' (stage_pipelineId x)" for x
  proof -
    assume "x \<in> set (stages ?s')"
    then consider "x \<in> set (stages s)" | "x \<in> set ?new" by (auto simp: st)
    then show ?thesis
    proof cases
      case 1
      with old[of x] show ?thesis by (auto intro: minted_mono simp: nx)
    next
      case 2
      then have "stage_id x \<in> set (map stage_id ?new)" by simp
      then have "minted ?s' (stage_id x)"
        unfolding newid by (auto simp: minted_def nx)
      moreover from 2 have "stage_pipelineId x = ?pid" by (rule new_stages_fields(3))
      then have "minted ?s' (stage_pipelineId x)" by (auto simp: minted_def nx)
      ultimately show ?thesis by simp
    qed
  qed
  have m2: "p \<in> set (pipelines ?s') \<Longrightarrow> minted ?s' (pipeline_id p)" for p
  proof -
    assume p: "p \<in> set (pipelines ?s')"
    from ps obtain p0 where "pipelines ?s' = pipelines s @ [p0]" "pipeline_id p0 = ?pid" by blast
    with p consider "p \<in> set (pipelines s)" | "pipeline_id p = ?pid" by auto
    then show ?thesis
    proof cases
      case 1
      with oldp[of p] show ?thesis by (auto intro: minted_mono simp: nx)
    next
      case 2
      then show ?thesis by (auto simp: minted_def nx)
    qed
  qed
  from d' m1 m2 have wk': "well_keyed ?s'"
    by (simp add: well_keyed_def list_all_iff)
  have "dense_orders q ?s'" for q
  proof (cases "q = ?pid")
    case True
    have "filter (\<lambda>x. stage_pipelineId x = ?pid) (stages s) = []"
      using old minted_fresh[of s _ ?n] by (auto simp: filter_empty_conv)
    with True have "stage_orders q ?s' = map int [0 ..< length (pci_stages i)]"
      by (simp add: stage_orders_def stages_of_def st new_stages_orders)
    then show ?thesis by (rule dense_upto)
  next
    case False
    then have "stage_orders q ?s' = stage_orders q s"
      by (simp add: stage_orders_def stages_of_def st new_stages_orders)
    with ad show ?thesis by (simp add: all_dense_def dense_orders_def)
  qed
  with wk' show ?thesis by (simp add: all_dense_def)
qed
subsection \<open>\<open>addStage\<close>\<close>

lemma updateMany_fields:
  assumes "\<And>r. stage_id (f r) = stage_id r" "\<And>r. stage_pipelineId (f r) = stage_pipelineId r"
  shows "map stage_id (updateMany P f rows) = map stage_id rows"
    and "map stage_pipelineId (updateMany P f rows) = map stage_pipelineId rows"
  unfolding updateMany_def by (induction rows) (auto simp: assms)

lemma shifted_orders:
  "map stage_order (filter (\<lambda>st. stage_pipelineId st = q)
     (updateMany (\<lambda>st. stage_pipelineId st = pid \<and> ord \<le> stage_order st)
        (\<lambda>st. st\<lparr>stage_order := stage_order st + 1\<rparr>) rows))
   = (if q = pid then map (shift_up ord) (map stage_order (filter (\<lambda>st. stage_pipelineId st = q) rows))
      else map stage_order (filter (\<lambda>st. stage_pipelineId st = q) rows))"
  unfolding updateMany_def by (induction rows) (auto simp: shift_up_def)

lemma shift_up_beyond:
  assumes "set os = {0 ..< int (length os)}" "int (length os) \<le> ord"
  shows "map (shift_up ord) os = os"
proof -
  from assms have "\<And>x. x \<in> set os \<Longrightarrow> shift_up ord x = x"
    by (auto simp: shift_up_def)
  then show ?thesis by (simp add: map_idI)
qed

lemma addStage_keeps:
  assumes wk: "well_keyed s" and ad: "all_dense s" and rg: "position_in_range i s"
  shows "well_keyed (snd (pipelineRouter_addStage c i s))
         \<and> all_dense (snd (pipelineRouter_addStage c i s))"
proof (cases "asi_name i \<noteq> [] \<and>
    findFirst (\<lambda>p. pipeline_id p = asi_pipelineId i \<and> pipeline_tenantId p = ctx_tenantId c)
      (pipelines s) \<noteq> None")
  case False
  then have "snd (pipelineRouter_addStage c i s) = s"
    by (auto simp: pipelineRouter_addStage_def throw_def)
  with wk ad show ?thesis by simp
next
  case True
  then obtain p where nm: "asi_name i \<noteq> []"
    and found: "findFirst (\<lambda>p. pipeline_id p = asi_pipelineId i \<and> pipeline_tenantId p = ctx_tenantId c)
                  (pipelines s) = Some p"
    by auto
  from findFirst_SomeD[OF found] have pid: "pipeline_id p = asi_pipelineId i"
    and pmem: "p \<in> set (pipelines s)" by simp_all
  let ?pid = "asi_pipelineId i"
  let ?os = "stage_orders ?pid s"
  let ?n = "int (length ?os)"
  let ?ord = "case asi_position i of Some pos \<Rightarrow> pos | None \<Rightarrow> ?n"
  let ?shifted = "if ?ord < ?n
                   then updateMany (\<lambda>st. stage_pipelineId st = ?pid \<and> ?ord \<le> stage_order st)
                          (\<lambda>st. st\<lparr>stage_order := stage_order st + 1\<rparr>) (stages s)
                   else stages s"
  let ?st = "\<lparr> stage_id = mint_id (next_id s), stage_pipelineId = ?pid,
                stage_name = asi_name i, stage_color = asi_color i, stage_order = ?ord \<rparr>"
  let ?s' = "snd (pipelineRouter_addStage c i s)"
  have len: "int (length (stages_of ?pid s)) = ?n"
    by (simp add: stage_orders_def)
  from nm found pid have st: "stages ?s' = ?shifted @ [?st]"
    and nx: "next_id ?s' = Suc (next_id s)" and ps: "pipelines ?s' = pipelines s"
    by (simp_all add: pipelineRouter_addStage_def Let_def len)
  from rg have range: "0 \<le> ?ord" "?ord \<le> ?n"
    by (auto simp: position_in_range_def len split: option.splits)
  from wk have old: "\<And>x. x \<in> set (stages s) \<Longrightarrow> minted s (stage_id x) \<and> minted s (stage_pipelineId x)"
    and oldp: "\<And>p. p \<in> set (pipelines s) \<Longrightarrow> minted s (pipeline_id p)"
    and dist: "distinct (map stage_id (stages s))"
    by (auto simp: well_keyed_def list_all_iff)
  have ids: "map stage_id ?shifted = map stage_id (stages s)"
    and pids: "map stage_pipelineId ?shifted = map stage_pipelineId (stages s)"
    by (simp_all add: updateMany_fields)
  have fresh: "mint_id (next_id s) \<notin> set (map stage_id (stages s))"
  proof
    assume "mint_id (next_id s) \<in> set (map stage_id (stages s))"
    then obtain x where x: "x \<in> set (stages s)" "stage_id x = mint_id (next_id s)" by auto
    from old[OF x(1)] have "minted s (stage_id x)" by simp
    from minted_fresh[OF this, of "next_id s"] x(2) show False by simp
  qed
  from dist fresh have d': "distinct (map stage_id (stages ?s'))"
    by (simp add: st ids del: map_map)
  have up: "minted ?s' x" if "minted s x" for x
    using that by (rule minted_mono) (simp add: nx)
  have allm: "list_all (\<lambda>x. minted ?s' x) (map stage_id (stages ?s'))"
    "list_all (\<lambda>x. minted ?s' x) (map stage_pipelineId (stages ?s'))"
  proof -
    have a: "\<And>x. x \<in> set (map stage_id (stages s)) \<Longrightarrow> minted ?s' x"
      using old up by auto
    have b: "\<And>x. x \<in> set (map stage_pipelineId (stages s)) \<Longrightarrow> minted ?s' x"
      using old up by auto
    have c: "minted ?s' (mint_id (next_id s))" by (simp add: minted_def nx)
    from oldp[OF pmem] pid up have d: "minted ?s' ?pid" by auto
    show "list_all (\<lambda>x. minted ?s' x) (map stage_id (stages ?s'))"
      using a c by (simp add: st ids list_all_iff del: map_map)
    show "list_all (\<lambda>x. minted ?s' x) (map stage_pipelineId (stages ?s'))"
      using b d by (simp add: st pids list_all_iff del: map_map)
  qed
  have "list_all (\<lambda>p. minted ?s' (pipeline_id p)) (pipelines ?s')"
    using oldp up by (auto simp: ps list_all_iff)
  with d' allm have wk': "well_keyed ?s'"
    by (simp add: well_keyed_def list_all_iff)
  from ad have dq: "\<And>q. distinct (stage_orders q s) \<and>
      set (stage_orders q s) = {0 ..< int (length (stage_orders q s))}"
    by (simp add: all_dense_def dense_orders_def)
  have "dense_orders q ?s'" for q
  proof (cases "q = ?pid")
    case False
    then have "stage_orders q ?s' = stage_orders q s"
      by (simp add: stage_orders_def stages_of_def st shifted_orders)
    with dq[of q] show ?thesis by (simp add: dense_orders_def)
  next
    case True
    have "map stage_order (filter (\<lambda>st. stage_pipelineId st = ?pid) ?shifted)
            = map (shift_up ?ord) ?os"
    proof (cases "?ord < ?n")
      case True
      then show ?thesis
        by (simp add: shifted_orders stage_orders_def stages_of_def)
    next
      case False
      with shift_up_beyond[of ?os ?ord] dq[of ?pid] show ?thesis
        by (simp add: stage_orders_def stages_of_def)
    qed
    then have eq: "stage_orders ?pid ?s' = map (shift_up ?ord) ?os @ [?ord]"
      by (simp add: stage_orders_def stages_of_def st)
    from dq[of ?pid] have "distinct ?os" "set ?os = {0 ..< int (length ?os)}" by simp_all
    from dense_insert[OF this range] show ?thesis
      unfolding True dense_orders_def eq by simp
  qed
  with wk' show ?thesis by (simp add: all_dense_def)
qed

subsection \<open>\<open>deleteStage\<close>\<close>

lemma renumbered_orders:
  "map stage_order (filter (\<lambda>st. stage_pipelineId st = q)
     (updateMany (\<lambda>r. stage_pipelineId r = pid \<and> k < stage_order r)
        (\<lambda>r. r\<lparr>stage_order := stage_order r - 1\<rparr>) rows))
   = (if q = pid then map (shift_down k) (map stage_order (filter (\<lambda>st. stage_pipelineId st = q) rows))
      else map stage_order (filter (\<lambda>st. stage_pipelineId st = q) rows))"
  unfolding updateMany_def by (induction rows) (auto simp: shift_down_def)

lemma deleteStage_keeps:
  assumes wk: "well_keyed s" and ad: "all_dense s"
  shows "well_keyed (snd (pipelineRouter_deleteStage c i s))
         \<and> all_dense (snd (pipelineRouter_deleteStage c i s))"
proof (cases "findFirst (\<lambda>st. stage_id st = i \<and> stage_in_tenant (ctx_tenantId c) s st) (stages s)")
  case None
  then have "snd (pipelineRouter_deleteStage c i s) = s"
    by (simp add: pipelineRouter_deleteStage_def throw_def)
  with wk ad show ?thesis by simp
next
  case (Some st)
  from findFirst_SomeD[OF Some] have id: "stage_id st = i" and mem: "st \<in> set (stages s)"
    by simp_all
  show ?thesis
  proof (cases "0 < dealCount i s")
    case True
    with Some id have "snd (pipelineRouter_deleteStage c i s) = s"
      by (simp add: pipelineRouter_deleteStage_def throw_def)
    with wk ad show ?thesis by simp
  next
    case False
    let ?pid = "stage_pipelineId st"
    let ?k = "stage_order st"
    let ?rem = "filter (\<lambda>r. stage_id r \<noteq> i) (stages s)"
    let ?s' = "snd (pipelineRouter_deleteStage c i s)"
    from Some id False
    have st: "stages ?s' = updateMany (\<lambda>r. stage_pipelineId r = ?pid \<and> ?k < stage_order r)
                             (\<lambda>r. r\<lparr>stage_order := stage_order r - 1\<rparr>) ?rem"
      and nx: "next_id ?s' = next_id s" and ps: "pipelines ?s' = pipelines s"
      by (simp_all add: pipelineRouter_deleteStage_def Let_def)
    from wk have old: "\<And>x. x \<in> set (stages s) \<Longrightarrow> minted s (stage_id x) \<and> minted s (stage_pipelineId x)"
      and oldp: "list_all (\<lambda>p. minted s (pipeline_id p)) (pipelines s)"
      and dist: "distinct (map stage_id (stages s))"
      by (auto simp: well_keyed_def list_all_iff)
    have ids: "map stage_id (stages ?s') = map stage_id ?rem"
      and pids: "map stage_pipelineId (stages ?s') = map stage_pipelineId ?rem"
      unfolding st by (simp_all add: updateMany_fields)
    from dist have "distinct (map stage_id ?rem)" by (simp add: distinct_map_filter)
    then have d': "distinct (map stage_id (stages ?s'))" by (simp only: ids)
    have m: "minted s' = minted s" if "next_id s' = next_id s" for s' :: store
      using that by (auto simp: minted_def fun_eq_iff)
    have "list_all (\<lambda>x. minted s x) (map stage_id (stages ?s'))"
      "list_all (\<lambda>x. minted s x) (map stage_pipelineId (stages ?s'))"
      unfolding ids pids using old by (auto simp: list_all_iff)
    with d' oldp have wk': "well_keyed ?s'"
      by (simp add: well_keyed_def m[OF nx] ps list_all_iff)
    from ad have dq: "\<And>q. distinct (stage_orders q s) \<and>
        set (stage_orders q s) = {0 ..< int (length (stage_orders q s))}"
      by (simp add: all_dense_def dense_orders_def)
    have only: "r = st" if "r \<in> set (stages s)" "stage_id r = i" for r
      using that dist mem id by (metis distinct_map inj_onD)
    have "dense_orders q ?s'" for q
    proof (cases "q = ?pid")
      case False
      have "filter (\<lambda>r. stage_pipelineId r = q) ?rem = filter (\<lambda>r. stage_pipelineId r = q) (stages s)"
        using False only by (auto simp: filter_filter intro!: filter_cong)
      with False have "stage_orders q ?s' = stage_orders q s"
        by (simp add: stage_orders_def stages_of_def st renumbered_orders)
      with dq[of q] show ?thesis by (simp add: dense_orders_def)
    next
      case True
      let ?os = "stage_orders ?pid s"
      from dq[of ?pid] have dos: "distinct ?os" and sos: "set ?os = {0 ..< int (length ?os)}"
        by simp_all
      from dos have inj: "inj_on stage_order (set (stages_of ?pid s))"
        by (simp add: stage_orders_def distinct_map)
      from mem have stin: "st \<in> set (stages_of ?pid s)" by (simp add: stages_of_def)
      have same: "(stage_id r \<noteq> i) = (stage_order r \<noteq> ?k)" if "r \<in> set (stages_of ?pid s)" for r
      proof
        assume "stage_id r \<noteq> i"
        with id have "r \<noteq> st" by auto
        with inj that stin show "stage_order r \<noteq> ?k" by (auto dest: inj_onD)
      next
        assume "stage_order r \<noteq> ?k"
        then have "r \<noteq> st" by auto
        with only[of r] that show "stage_id r \<noteq> i" by (auto simp: stages_of_def)
      qed
      have "filter (\<lambda>r. stage_pipelineId r = ?pid) ?rem
              = filter (\<lambda>r. stage_id r \<noteq> i) (stages_of ?pid s)"
        by (auto simp: stages_of_def filter_filter intro!: filter_cong)
      also have "\<dots> = filter (\<lambda>r. stage_order r \<noteq> ?k) (stages_of ?pid s)"
        using same by (auto intro!: filter_cong)
      finally have "map stage_order (filter (\<lambda>r. stage_pipelineId r = ?pid) ?rem)
                      = filter (\<lambda>x. x \<noteq> ?k) ?os"
        by (simp add: stage_orders_def filter_map comp_def)
      then have eq: "stage_orders ?pid ?s' = map (shift_down ?k) (filter (\<lambda>x. x \<noteq> ?k) ?os)"
        by (simp add: stage_orders_def stages_of_def st renumbered_orders)
      from stin have kin: "?k \<in> set ?os" by (simp add: stage_orders_def)
      from dense_delete[OF dos sos kin] show ?thesis
        unfolding True dense_orders_def eq by simp
    qed
    with wk' show ?thesis by (simp add: all_dense_def)
  qed
qed

subsection \<open>Runs\<close>

lemma empty_store_keyed_dense: "well_keyed empty_store \<and> all_dense empty_store"
  by (simp add: well_keyed_def all_dense_def dense_orders_def stage_orders_def stages_of_def
      empty_store_def)

lemma apply_op_keeps:
  assumes "well_keyed s" "all_dense s" "op_in_range x s"
  shows "well_keyed (apply_op x s) \<and> all_dense (apply_op x s)"
  using assms create_keeps addStage_keeps deleteStage_keeps by (cases x) simp_all

lemma run_ops_keeps:
  "well_keyed s \<Longrightarrow> all_dense s \<Longrightarrow> positions_ok xs s \<Longrightarrow>
     well_keyed (run_ops xs s) \<and> all_dense (run_ops xs s)"
proof (induction xs arbitrary: s)
  case Nil
  then show ?case by simp
next
  case (Cons x xs)
  from Cons.prems have "op_in_range x s" "positions_ok xs (apply_op x s)" by simp_all
  with apply_op_keeps[of s x] Cons.prems(1,2) Cons.IH[of "apply_op x s"] show ?case
    by simp
qed

text \<open>
  Starting from the empty store, after any run of \<open>create\<close>, \<open>addStage\<close> and \<open>deleteStage\<close>
  in which every position given to \<open>addStage\<close> is absent or lies between \<open>0\<close> and the
  current stage count, the stage orders of every pipeline are pairwise distinct and are
  exactly \<open>0, \<dots>, N - 1\<close>.
\<close>

theorem dense_when_positions_in_range:
  "positions_ok xs empty_store \<Longrightarrow> dense_orders pid (run_ops xs empty_store)"
  using run_ops_keeps[of empty_store xs] empty_store_keyed_dense
  by (simp add: all_dense_def)

lemma dense_when_positions_in_range_example:
  "stage_orders ''c''
     (run_ops [Create ctx1 sales_input,
               AddStage ctx1 (late_stage\<lparr>asi_position := Some 1\<rparr>),
               DeleteStage ctx1 ''c0''] empty_store) = [1, 0]
   \<and> dense_orders ''c''
     (run_ops [Create ctx1 sales_input,
               AddStage ctx1 (late_stage\<lparr>asi_position := Some 1\<rparr>),
               DeleteStage ctx1 ''c0''] empty_store)"
proof -
  have ok: "positions_ok [Create ctx1 sales_input,
               AddStage ctx1 (late_stage\<lparr>asi_position := Some 1\<rparr>),
               DeleteStage ctx1 ''c0''] empty_store"
    by code_simp
  have "stage_orders ''c''
     (run_ops [Create ctx1 sales_input,
               AddStage ctx1 (late_stage\<lparr>asi_position := Some 1\<rparr>),
               DeleteStage ctx1 ''c0''] empty_store) = [1, 0]"
    by code_simp
  then show ?thesis using dense_when_positions_in_range[OF ok, of "''c''"] by (rule conjI)
qed

end
